theory Spec2Isabelle
  imports Complex_Main
begin

section \<open>Numbers of the screening code\<close>

text \<open>
  The program computes with NumPy doubles. A finite double is idealised as a real
  number (exact arithmetic, no rounding error, no overflow, no signed zero); the special
  values that decide the control flow of the program (the two infinities and
  not-a-number, which NumPy produces with a warning where Python would raise) are
  explicit constructors. Where a result depends on the rounding of a difference, the
  rounding is modelled as well (\<open>round_double\<close> below).
\<close>

datatype fl = Fin real | PInf | NInf | NaN

type_synonym stock = string

fun fneg :: "fl \<Rightarrow> fl" where
  "fneg (Fin a) = Fin (- a)"
| "fneg PInf = NInf"
| "fneg NInf = PInf"
| "fneg NaN = NaN"

fun fadd :: "fl \<Rightarrow> fl \<Rightarrow> fl" where
  "fadd (Fin a) (Fin b) = Fin (a + b)"
| "fadd NaN y = NaN"
| "fadd x NaN = NaN"
| "fadd PInf NInf = NaN"
| "fadd NInf PInf = NaN"
| "fadd PInf y = PInf"
| "fadd x PInf = PInf"
| "fadd NInf y = NInf"
| "fadd x NInf = NInf"

definition fsub :: "fl \<Rightarrow> fl \<Rightarrow> fl" where
  "fsub x y = fadd x (fneg y)"

text \<open>The sign of a finite number picks the infinity; a zero factor of an infinity is NaN.\<close>

definition inf_times :: "real \<Rightarrow> fl" where
  "inf_times a = (if 0 < a then PInf else if a < 0 then NInf else NaN)"

fun fmul :: "fl \<Rightarrow> fl \<Rightarrow> fl" where
  "fmul (Fin a) (Fin b) = Fin (a * b)"
| "fmul NaN y = NaN"
| "fmul x NaN = NaN"
| "fmul PInf (Fin b) = inf_times b"
| "fmul NInf (Fin b) = inf_times (- b)"
| "fmul (Fin a) PInf = inf_times a"
| "fmul (Fin a) NInf = inf_times (- a)"
| "fmul PInf PInf = PInf"
| "fmul NInf NInf = PInf"
| "fmul PInf NInf = NInf"
| "fmul NInf PInf = NInf"

text \<open>
  Division of NumPy doubles: a zero divisor gives an infinity of the sign of the dividend,
  or NaN for 0/0, with a RuntimeWarning (line 19 silences the one for "divide by zero")
  where Python's own floats would raise ZeroDivisionError.
\<close>

fun fdiv :: "fl \<Rightarrow> fl \<Rightarrow> fl" where
  "fdiv (Fin a) (Fin b) = (if b = 0 then inf_times a else Fin (a / b))"
| "fdiv NaN y = NaN"
| "fdiv x NaN = NaN"
| "fdiv (Fin a) y = Fin 0"
| "fdiv PInf (Fin b) = (if 0 \<le> b then PInf else NInf)"
| "fdiv NInf (Fin b) = (if 0 \<le> b then NInf else PInf)"
| "fdiv x y = NaN"

text \<open>Comparisons: every comparison with NaN is false.\<close>

fun flt :: "fl \<Rightarrow> fl \<Rightarrow> bool" where
  "flt (Fin a) (Fin b) = (a < b)"
| "flt NaN y = False"
| "flt x NaN = False"
| "flt x NInf = False"
| "flt PInf y = False"
| "flt x y = True"

definition fgt :: "fl \<Rightarrow> fl \<Rightarrow> bool" where
  "fgt x y = flt y x"

definition fge :: "fl \<Rightarrow> fl \<Rightarrow> bool" where
  "fge x y = (x \<noteq> NaN \<and> y \<noteq> NaN \<and> \<not> flt x y)"

text \<open>\<^verbatim>\<open>np.log\<close> and \<^verbatim>\<open>np.sqrt\<close>: outside the domain they warn and give NaN (or -inf for log 0).\<close>

fun np_log :: "fl \<Rightarrow> fl" where
  "np_log (Fin a) = (if 0 < a then Fin (ln a) else if a = 0 then NInf else NaN)"
| "np_log PInf = PInf"
| "np_log NInf = NaN"
| "np_log NaN = NaN"

fun np_sqrt :: "fl \<Rightarrow> fl" where
  "np_sqrt (Fin a) = (if 0 \<le> a then Fin (sqrt a) else NaN)"
| "np_sqrt PInf = PInf"
| "np_sqrt NInf = NaN"
| "np_sqrt NaN = NaN"

text \<open>
  \<^verbatim>\<open>np.mean\<close> of a list of doubles: the sum over the count; of the empty list NaN, with a
  RuntimeWarning ("Mean of empty slice") and no exception.
\<close>

definition np_mean :: "fl list \<Rightarrow> fl" where
  "np_mean xs = (if xs = [] then NaN else fdiv (foldl fadd (Fin 0) xs) (Fin (real (length xs))))"

subsection \<open>Rounding\<close>

text \<open>Rounding to the nearest integer, halves to the even one, as Python and NumPy do.\<close>

definition round_half_even :: "real \<Rightarrow> int" where
  "round_half_even x =
     (let f = \<lfloor>x\<rfloor>; d = x - of_int f
      in if d < 1 / 2 then f else if 1 / 2 < d then f + 1 else if even f then f else f + 1)"

datatype exn = KeyError | IndexError | OverflowError | ValueError | TypeError

text \<open>
  \<^verbatim>\<open>round(x)\<close> of a double gives a Python int; an infinity raises OverflowError and NaN raises
  ValueError ("cannot convert float infinity/NaN to integer").
\<close>

fun py_round :: "fl \<Rightarrow> exn + int" where
  "py_round (Fin a) = Inr (round_half_even a)"
| "py_round PInf = Inl OverflowError"
| "py_round NInf = Inl OverflowError"
| "py_round NaN = Inl ValueError"

text \<open>\<^verbatim>\<open>round(x, 2)\<close> of a double gives a double and never raises.\<close>

fun py_round2 :: "fl \<Rightarrow> fl" where
  "py_round2 (Fin a) = Fin (of_int (round_half_even (a * 100)) / 100)"
| "py_round2 x = x"

text \<open>A Python value that is a double or a string (the sentinels of the collectors).\<close>

datatype pyval = PyFloat fl | PyStr string

section \<open>DataCollector\<close>

text \<open>
  \<^verbatim>\<open>DataCollector.calculate_volatility\<close> (lines 95-106), on the closing prices of a column
  of doubles. No operation of the body raises on doubles (division by zero, the logarithm
  outside its domain and the mean of an empty list only warn), so the handler, which would
  return the string "No data", is not reached; the result type keeps the string for it.
\<close>

definition log_returns :: "real list \<Rightarrow> fl list" where
  "log_returns closing_prices =
     map (\<lambda>(prev, cur). np_log (fdiv (Fin cur) (Fin prev))) (zip closing_prices (tl closing_prices))"

definition calculate_volatility :: "real list \<Rightarrow> stock \<Rightarrow> pyval" where
  "calculate_volatility closing_prices stock =
     (let lrs = log_returns closing_prices;
          avg_return = np_mean lrs;
          squared_deviations = map (\<lambda>lr. fmul (fsub lr avg_return) (fsub lr avg_return)) lrs;
          variance = np_mean squared_deviations;
          historical_volatility = np_sqrt variance;
          vol = py_round2 (fmul (fmul historical_volatility (np_sqrt (Fin 252))) (Fin 100))
      in PyFloat vol)"

text \<open>
  \<^verbatim>\<open>DataCollector.get_evidence_of_selling\<close> (lines 75-93). The argument is the frame of
  minute bars that \<^verbatim>\<open>yf.download\<close> returns for the session; \<open>None\<close> stands for any exception
  before the frame is there (the parse of the date, the download).
\<close>

record minute_bar =
  mOpen :: real
  mClose :: real
  mVolume :: nat

text \<open>\<^verbatim>\<open>df['Volume'].max()\<close>: of an empty column NaN, written \<open>None\<close>.\<close>

definition volume_max :: "minute_bar list \<Rightarrow> nat option" where
  "volume_max df = (if df = [] then None else Some (Max (set (map mVolume df))))"

definition get_evidence_of_selling :: "minute_bar list option \<Rightarrow> stock \<Rightarrow> string" where
  "get_evidence_of_selling download stock =
     (case download of
        None \<Rightarrow> ''No data''
      | Some df0 \<Rightarrow>
          (let df = butlast (tl df0);
               highest_volume_row =
                 (case volume_max df of
                    None \<Rightarrow> []
                  | Some m \<Rightarrow> filter (\<lambda>b. mVolume b = m) df)
           in case highest_volume_row of
                [] \<Rightarrow> ''No data''
              | row # _ \<Rightarrow> if mClose row \<le> mOpen row then ''Yes'' else ''No''))"

text \<open>
  \<^verbatim>\<open>DataCollector.get_current_price\<close> (lines 62-73). The argument is what the request
  and the parse of the quote page give: \<open>None\<close> stands for any exception inside the
  \<^verbatim>\<open>try\<close> block, which the handler turns into the number 999.
\<close>

definition get_current_price :: "real option \<Rightarrow> real" where
  "get_current_price page = (case page of Some cp \<Rightarrow> cp | None \<Rightarrow> 999)"

section \<open>Watchlist\<close>

text \<open>
  \<^verbatim>\<open>Watchlist.closest_number\<close> (lines 115-125). On numbers neither \<^verbatim>\<open>abs\<close>,
  the subtraction nor the comparison raises, so the handler (which returns True) is not
  reached; \<open>stock\<close> is used by the log message of the handler only.
\<close>

definition closest_number :: "real \<Rightarrow> real \<Rightarrow> real \<Rightarrow> stock \<Rightarrow> bool" where
  "closest_number close high low stock =
     (let dist1 = \<bar>close - high\<bar>;
          dist2 = \<bar>close - low\<bar>
      in if dist1 < dist2 then True else False)"

subsection \<open>The momentum flag on doubles\<close>

text \<open>
  The two subtractions of lines 117-118 as the machine does them: the exact difference of
  two doubles is rounded to the nearest double, halves to the even significand (53 bits,
  exponent from -1022, an infinity from \<open>2 ^ 1024\<close> on). \<open>ulp_exponent x\<close> is the exponent of
  the unit in the last place of the doubles around \<open>x\<close>.
\<close>

definition ulp_exponent :: "real \<Rightarrow> int" where
  "ulp_exponent x = max \<lfloor>log 2 \<bar>x\<bar>\<rfloor> (- 1022) - 52"

definition round_double :: "real \<Rightarrow> fl" where
  "round_double x =
     (if x = 0 then Fin 0
      else let q = 2 powr real_of_int (ulp_exponent x);
               r = of_int (round_half_even (x / q)) * q
           in if 2 ^ 1024 \<le> \<bar>r\<bar> then (if 0 < r then PInf else NInf) else Fin r)"

fun fabs :: "fl \<Rightarrow> fl" where
  "fabs (Fin a) = Fin \<bar>a\<bar>"
| "fabs PInf = PInf"
| "fabs NInf = PInf"
| "fabs NaN = NaN"

text \<open>
  \<^verbatim>\<open>Watchlist.closest_number\<close> with the rounded differences. It is \<open>closest_number\<close> wherever
  the two differences are doubles themselves.
\<close>

definition closest_number_double :: "real \<Rightarrow> real \<Rightarrow> real \<Rightarrow> stock \<Rightarrow> bool" where
  "closest_number_double close high low stock =
     (let dist1 = fabs (round_double (close - high));
          dist2 = fabs (round_double (close - low))
      in if flt dist1 dist2 then True else False)"

subsection \<open>The daily bars and the providers\<close>

text \<open>
  A row of the frame that \<^verbatim>\<open>ticker.history\<close> returns, after \<^verbatim>\<open>reset_index\<close>: the columns the
  program reads. Prices are finite doubles (reals here), the volume is a count of shares
  and the date is a day number.
\<close>

record bar =
  Date :: nat
  Open :: real
  High :: real
  Low :: real
  Close :: real
  Volume :: nat

text \<open>
  What the outside world answers: the daily bars for a symbol and a period of \<open>i\<close> days,
  the texts scraped from the quote pages (\<open>None\<close>: the request or the parse raised),
  and the minute bars of a session.
\<close>

record provider =
  history :: "stock \<Rightarrow> nat \<Rightarrow> bar list"
  market_cap_item :: "stock \<Rightarrow> string option"
  short_float_item :: "stock \<Rightarrow> string option"
  profile_spans :: "stock \<Rightarrow> (string \<times> string) option"
  quote_price :: "stock \<Rightarrow> real option"
  minute_download :: "stock \<Rightarrow> nat \<Rightarrow> minute_bar list option"

text \<open>\<^verbatim>\<open>get_market_cap\<close>, \<^verbatim>\<open>get_short_float\<close>, \<^verbatim>\<open>get_sector\<close> (lines 23-60).\<close>

definition get_market_cap :: "string option \<Rightarrow> string" where
  "get_market_cap item = (case item of Some mc \<Rightarrow> mc | None \<Rightarrow> ''No data'')"

definition get_short_float :: "string option \<Rightarrow> string" where
  "get_short_float item = (case item of Some sf \<Rightarrow> sf | None \<Rightarrow> ''No data'')"

definition get_sector :: "(string \<times> string) option \<Rightarrow> string" where
  "get_sector spans =
     (case spans of
        Some (industry, sector) \<Rightarrow> if length industry \<le> length sector then industry else sector
      | None \<Rightarrow> ''N/A'')"

text \<open>
  \<^verbatim>\<open>Series.mean()\<close> and \<^verbatim>\<open>Series.median()\<close> of pandas on a column without missing values;
  of an empty column both are NaN.
\<close>

definition pd_mean :: "real list \<Rightarrow> fl" where
  "pd_mean xs = (if xs = [] then NaN else Fin (sum_list xs / real (length xs)))"

definition pd_median :: "real list \<Rightarrow> fl" where
  "pd_median xs =
     (let ys = sort xs; n = length xs
      in if n = 0 then NaN
         else if odd n then Fin (ys ! (n div 2))
         else Fin ((ys ! (n div 2 - 1) + ys ! (n div 2)) / 2))"

subsection \<open>The metrics of lines 137-141\<close>

text \<open>
  Each is a function of the frame \<open>stock_data\<close>, named as the variable of the source. They
  are read only when the frame has the rows 48 and 49 (otherwise line 137 raises KeyError
  first); \<^verbatim>\<open>[0:49]\<close> is \<open>take 49\<close>.
\<close>

definition gap :: "bar list \<Rightarrow> fl" where
  "gap stock_data =
     fmul (fdiv (Fin (Open (stock_data ! 49) - High (stock_data ! 48))) (Fin (High (stock_data ! 48))))
          (Fin 100)"

definition green_initial_day :: "bar list \<Rightarrow> bool" where
  "green_initial_day stock_data = (Open (stock_data ! 49) < Close (stock_data ! 49))"

definition avg_vol :: "bar list \<Rightarrow> fl" where
  "avg_vol stock_data = pd_mean (map (\<lambda>b. real (Volume b)) (take 49 stock_data))"

definition equity_vol :: "bar list \<Rightarrow> fl" where
  "equity_vol stock_data =
     fmul (pd_mean (map Close (take 49 stock_data)))
          (pd_median (map (\<lambda>b. real (Volume b)) (take 49 stock_data)))"

definition vol_ratio :: "bar list \<Rightarrow> fl" where
  "vol_ratio stock_data = fdiv (Fin (real (Volume (stock_data ! 49)))) (avg_vol stock_data)"

text \<open>
  The condition of line 143. Python's \<^verbatim>\<open>and\<close> stops at the first false operand, and
  \<^verbatim>\<open>round\<close> raises on an infinity or NaN: the result is the exception or the truth value.
\<close>

definition initial_screen :: "bar list \<Rightarrow> exn + bool" where
  "initial_screen stock_data =
     (if \<not> green_initial_day stock_data then Inr False
      else case py_round (gap stock_data) of
             Inl ex \<Rightarrow> Inl ex
           | Inr g \<Rightarrow>
               if \<not> 2 \<le> g then Inr False
               else if \<not> fge (equity_vol stock_data) (Fin 250000) then Inr False
               else case py_round (vol_ratio stock_data) of
                      Inl ex \<Rightarrow> Inl ex
                    | Inr r \<Rightarrow> Inr (3 < r))"

subsection \<open>The state of a Watchlist and what a task does\<close>

record watchlist =
  stocks_in_play :: nat
  sizzlers :: "stock list"

text \<open>The fields of a printed row (lines 153-155), before formatting.\<close>

record row =
  row_stock :: stock
  row_date :: nat
  row_sector :: string
  row_mc :: string
  row_equity_vol :: int
  row_gap :: fl
  row_vol_ratio :: fl
  row_sf :: string
  row_vol :: pyval
  row_evidence_of_selling :: string

text \<open>What a task does that the outside can see: the calls to the collectors and the print.\<close>

datatype action =
    Call_history
  | Call_market_cap
  | Call_short_float
  | Call_sector
  | Call_current_price
  | Call_evidence_of_selling nat
  | Print_row row
  | Resolve

text \<open>\<^verbatim>\<open>vol > 100\<close> (line 157): a string against an int raises TypeError.\<close>

fun vol_gt_100 :: "pyval \<Rightarrow> exn + bool" where
  "vol_gt_100 (PyFloat v) = Inr (fgt v (Fin 100))"
| "vol_gt_100 (PyStr s) = Inl TypeError"

text \<open>
  Lines 144-158, the branch taken when the condition of line 143 is true. The result is
  the exception raised, if any, the Watchlist as it is then, and the actions done so far.
  The f-string is evaluated before anything is printed, and \<^verbatim>\<open>round(equity_vol)\<close> in it can
  raise; \<^verbatim>\<open>vol > 100\<close> is evaluated after the row is printed and the counter incremented.
\<close>

definition passed_screen ::
  "provider \<Rightarrow> watchlist \<Rightarrow> stock \<Rightarrow> bar list \<Rightarrow> exn option \<times> watchlist \<times> action list" where
  "passed_screen p w stock stock_data =
     (let date = Date (stock_data ! 49);
          mc = get_market_cap (market_cap_item p stock);
          sf = get_short_float (short_float_item p stock);
          sector = get_sector (profile_spans p stock);
          current_price = get_current_price (quote_price p stock);
          evidence_of_selling = get_evidence_of_selling (minute_download p stock date) stock;
          vol = calculate_volatility (map Close (take 49 stock_data)) stock;
          momentum = closest_number current_price (High (stock_data ! 49)) (Low (stock_data ! 49)) stock;
          calls = [Call_market_cap, Call_short_float, Call_sector, Call_current_price,
                   Call_evidence_of_selling date]
      in if momentum \<and> evidence_of_selling = ''No'' then
           (case py_round (equity_vol stock_data) of
              Inl ex \<Rightarrow> (Some ex, w, calls)
            | Inr ev \<Rightarrow>
                (let printed = calls @
                       [Print_row \<lparr>row_stock = stock, row_date = date, row_sector = sector, row_mc = mc,
                                   row_equity_vol = ev, row_gap = py_round2 (gap stock_data),
                                   row_vol_ratio = py_round2 (vol_ratio stock_data), row_sf = sf,
                                   row_vol = vol, row_evidence_of_selling = evidence_of_selling\<rparr>];
                     w1 = w\<lparr>stocks_in_play := stocks_in_play w + 1\<rparr>
                 in case vol_gt_100 vol of
                      Inl ex \<Rightarrow> (Some ex, w1, printed)
                    | Inr hot \<Rightarrow>
                        if hot \<and> stock \<notin> set (sizzlers w1)
                        then (None, w1\<lparr>sizzlers := sizzlers w1 @ [stock]\<rparr>, printed)
                        else (None, w1, printed)))
         else (None, w, calls))"

text \<open>
  The body of the \<^verbatim>\<open>try\<close> of \<^verbatim>\<open>get_stock_data\<close> (lines 130-158) from the point where the
  frame is there. A label lookup \<^verbatim>\<open>stock_data['Open'][49]\<close> in a frame of fewer than 50
  rows raises KeyError. Logging is not modelled.
\<close>

definition get_stock_data_try ::
  "provider \<Rightarrow> watchlist \<Rightarrow> stock \<Rightarrow> nat \<Rightarrow> exn option \<times> watchlist \<times> action list" where
  "get_stock_data_try p w stock i =
     (let stock_data = history p stock i
      in if length stock_data < 50 then (Some KeyError, w, [])
         else case initial_screen stock_data of
                Inl ex \<Rightarrow> (Some ex, w, [])
              | Inr False \<Rightarrow> (None, w, [])
              | Inr True \<Rightarrow> passed_screen p w stock stock_data)"

text \<open>
  \<^verbatim>\<open>Watchlist.get_stock_data\<close> (lines 128-162) after its only \<^verbatim>\<open>await\<close>: the handlers catch
  KeyError and IndexError, every other exception leaves the coroutine.
\<close>

definition get_stock_data ::
  "provider \<Rightarrow> watchlist \<Rightarrow> stock \<Rightarrow> nat \<Rightarrow> exn option \<times> watchlist \<times> action list" where
  "get_stock_data p w stock i =
     (case get_stock_data_try p w stock i of
        (Some KeyError, w', acts) \<Rightarrow> (None, w', acts)
      | (Some IndexError, w', acts) \<Rightarrow> (None, w', acts)
      | r \<Rightarrow> r)"

subsection \<open>The run\<close>

text \<open>
  \<^verbatim>\<open>Watchlist.main\<close> (lines 164-178) on the asyncio event loop, as a step relation. One
  thread runs everything. A task created by \<^verbatim>\<open>create_task\<close> runs only while \<^verbatim>\<open>main\<close> is
  suspended in \<^verbatim>\<open>await asyncio.gather(*tasks)\<close>; it starts, calls \<^verbatim>\<open>ticker.history\<close> in a thread
  and suspends at its only \<^verbatim>\<open>await\<close>; when the frame is there it is resumed and runs
  \<open>get_stock_data\<close> to its end without another suspension. Tasks start and resume in any
  order. \<^verbatim>\<open>gather\<close> returns when every task has returned, and raises into \<^verbatim>\<open>main\<close> the
  exception of a task that raised; nothing in \<^verbatim>\<open>main\<close> catches it, so the run is over (the
  loop cancels what is left).
\<close>

datatype event =
    Print_header
  | Print_separator nat
  | Print_summary nat nat
  | Task stock nat action

datatype task_status = Created | Fetching | Finished "exn option"

datatype main_pc = Iteration nat | Gathering nat | Returned | Raised exn

record run =
  pc :: main_pc
  tasks :: "(stock \<times> nat \<times> task_status) list"
  watch :: watchlist
  events :: "event list"

definition initial :: run where
  "initial = \<lparr>pc = Iteration 50, tasks = [],
              watch = \<lparr>stocks_in_play = 0, sizzlers = []\<rparr>,
              events = [Print_header]\<rparr>"

inductive step :: "provider \<Rightarrow> stock list \<Rightarrow> run \<Rightarrow> run \<Rightarrow> bool" for p :: provider and stocks :: "stock list" where
  spawn: "pc s = Iteration i \<Longrightarrow> i < 60 \<Longrightarrow>
     step p stocks s
       (s\<lparr>pc := Gathering i,
          tasks := tasks s @ map (\<lambda>stock. (stock, i, Created)) stocks,
          events := events s @ [Print_separator i]\<rparr>)"
| start: "pc s = Gathering i \<Longrightarrow> k < length (tasks s) \<Longrightarrow> tasks s ! k = (stock, j, Created) \<Longrightarrow>
     step p stocks s
       (s\<lparr>tasks := (tasks s)[k := (stock, j, Fetching)],
          events := events s @ [Task stock j Call_history]\<rparr>)"
| resume: "pc s = Gathering i \<Longrightarrow> k < length (tasks s) \<Longrightarrow> tasks s ! k = (stock, j, Fetching) \<Longrightarrow>
     get_stock_data p (watch s) stock j = (r, w', acts) \<Longrightarrow>
     step p stocks s
       (s\<lparr>tasks := (tasks s)[k := (stock, j, Finished r)],
          watch := w',
          events := events s @ map (Task stock j) acts @ [Task stock j Resolve]\<rparr>)"
| gathered: "pc s = Gathering i \<Longrightarrow> \<forall>t\<in>set (tasks s). snd (snd t) = Finished None \<Longrightarrow>
     step p stocks s (s\<lparr>pc := Iteration (Suc i), tasks := []\<rparr>)"
| failed: "pc s = Gathering i \<Longrightarrow> (stock, j, Finished (Some ex)) \<in> set (tasks s) \<Longrightarrow>
     step p stocks s (s\<lparr>pc := Raised ex\<rparr>)"
| summary: "pc s = Iteration 60 \<Longrightarrow>
     step p stocks s
       (s\<lparr>pc := Returned,
          events := events s @
            [Print_summary (stocks_in_play (watch s)) (length (sizzlers (watch s)))]\<rparr>)"

inductive reachable :: "provider \<Rightarrow> stock list \<Rightarrow> run \<Rightarrow> bool" for p :: provider and stocks :: "stock list" where
  start_of_run: "reachable p stocks initial"
| after_step: "reachable p stocks s \<Longrightarrow> step p stocks s s' \<Longrightarrow> reachable p stocks s'"

text \<open>The window sizes of the task events of a trace, in order.\<close>

fun windows :: "event list \<Rightarrow> nat list" where
  "windows [] = []"
| "windows (Task stock j a # es) = j # windows es"
| "windows (e # es) = windows es"

subsection \<open>The gap as the specification words it\<close>

text \<open>
  Section 4.1 of the specification: \<open>gapPercent(todayOpen, yesterdayHigh)\<close> is
  \<open>(todayOpen - yesterdayHigh) / yesterdayHigh * 100\<close>. It is compared with \<open>gap\<close> of the code.
\<close>

definition gapPercent :: "real \<Rightarrow> real \<Rightarrow> fl" where
  "gapPercent todayOpen yesterdayHigh =
     fmul (fdiv (Fin (todayOpen - yesterdayHigh)) (Fin yesterdayHigh)) (Fin 100)"

subsection \<open>Sample data\<close>

text \<open>
  Forty-nine quiet days whose close alternates between 1 and 2, on a million shares each,
  and a breakout day: it opens at 3 above the high of 2 of the day before and closes at 4.
\<close>

definition calm_lo :: bar where
  "calm_lo = \<lparr>Date = 0, Open = 1, High = 2, Low = 1, Close = 1, Volume = 1000000\<rparr>"

definition calm_hi :: bar where
  "calm_hi = \<lparr>Date = 0, Open = 1, High = 2, Low = 1, Close = 2, Volume = 1000000\<rparr>"

definition baseline :: "bar list" where
  "baseline =
     [calm_lo, calm_hi, calm_lo, calm_hi, calm_lo, calm_hi, calm_lo, calm_hi, calm_lo, calm_hi,
      calm_lo, calm_hi, calm_lo, calm_hi, calm_lo, calm_hi, calm_lo, calm_hi, calm_lo, calm_hi,
      calm_lo, calm_hi, calm_lo, calm_hi, calm_lo, calm_hi, calm_lo, calm_hi, calm_lo, calm_hi,
      calm_lo, calm_hi, calm_lo, calm_hi, calm_lo, calm_hi, calm_lo, calm_hi, calm_lo, calm_hi,
      calm_lo, calm_hi, calm_lo, calm_hi, calm_lo, calm_hi, calm_lo, calm_hi, calm_lo]"

definition breakout :: "nat \<Rightarrow> bar" where
  "breakout v = \<lparr>Date = 7, Open = 3, High = 9 / 2, Low = 29 / 10, Close = 4, Volume = v\<rparr>"

text \<open>The same fifty days after trading in the first forty-nine stopped: no volume at all.\<close>

definition halted :: "bar list" where
  "halted = map (\<lambda>b. b\<lparr>Volume := 0\<rparr>) baseline @ [breakout 1000]"

text \<open>A frame whose row 48 has a high of 0, as a bad record of the provider has.\<close>

definition zero_high :: "bar list" where
  "zero_high = butlast baseline @ [calm_lo\<lparr>High := 0\<rparr>, breakout 5000000]"

text \<open>
  A session of five minute bars whose busiest bar, the first and the last apart, closes
  above its open.
\<close>

definition session :: "minute_bar list" where
  "session = [\<lparr>mOpen = 3, mClose = 3, mVolume = 900\<rparr>, \<lparr>mOpen = 3, mClose = 7 / 2, mVolume = 50\<rparr>,
              \<lparr>mOpen = 7 / 2, mClose = 4, mVolume = 70\<rparr>, \<lparr>mOpen = 4, mClose = 4, mVolume = 60\<rparr>,
              \<lparr>mOpen = 4, mClose = 4, mVolume = 800\<rparr>]"

text \<open>
  A provider that answers every request: for a period of \<open>i\<close> days the frame has \<open>i\<close> rows, the
  breakout day (on \<open>v\<close> shares) in row 49 and quiet days after it.
\<close>

definition answering :: "bar list \<Rightarrow> provider" where
  "answering frame =
     \<lparr>history = (\<lambda>stock i. frame @ replicate (i - 50) calm_lo),
      market_cap_item = (\<lambda>stock. Some ''2.5T''),
      short_float_item = (\<lambda>stock. Some ''0.7%''),
      profile_spans = (\<lambda>stock. Some (''Consumer Electronics'', ''Technology'')),
      quote_price = (\<lambda>stock. Some (22 / 5)),
      minute_download = (\<lambda>stock date. Some session)\<rparr>"

subsection \<open>Invariants of the run\<close>

text \<open>
  The sizzlers hold no symbol twice, and they hold the symbol of every row printed with a
  volatility above 100.
\<close>

definition sizzlers_ok :: "run \<Rightarrow> bool" where
  "sizzlers_ok s \<longleftrightarrow>
     distinct (sizzlers (watch s)) \<and>
     (\<forall>stock j row. Task stock j (Print_row row) \<in> set (events s) \<and>
                     vol_gt_100 (row_vol row) = Inr True
        \<longrightarrow> stock \<in> set (sizzlers (watch s)))"

text \<open>
  Every task event of a trace is of a window from 50 to \<open>i\<close> (\<open>bounded\<close>), or below \<open>i\<close>
  (\<open>below\<close>); every symbol's task of every window below \<open>i\<close> has resolved (\<open>settled\<close>).
\<close>

definition bounded :: "nat \<Rightarrow> event list \<Rightarrow> bool" where
  "bounded i es \<longleftrightarrow> (\<forall>stock j a. Task stock j a \<in> set es \<longrightarrow> 50 \<le> j \<and> j \<le> i)"

definition below :: "nat \<Rightarrow> event list \<Rightarrow> bool" where
  "below i es \<longleftrightarrow> (\<forall>stock j a. Task stock j a \<in> set es \<longrightarrow> 50 \<le> j \<and> j < i)"

definition settled :: "stock list \<Rightarrow> nat \<Rightarrow> event list \<Rightarrow> bool" where
  "settled stocks i es \<longleftrightarrow>
     (\<forall>j stock. 50 \<le> j \<and> j < i \<and> stock \<in> set stocks \<longrightarrow> Task stock j Resolve \<in> set es)"

text \<open>
  What holds of a run at each point of \<^verbatim>\<open>main\<close>: the windows of the trace never decrease;
  between two iterations no task is left and every window so far is settled; while
  \<^verbatim>\<open>gather\<close> waits, the tasks are those of the symbols for the current window, and those
  that finished have their \<open>Resolve\<close> in the trace.
\<close>

definition batches_ok :: "stock list \<Rightarrow> run \<Rightarrow> bool" where
  "batches_ok stocks s \<longleftrightarrow>
     sorted (windows (events s)) \<and>
     (case pc s of
        Iteration i \<Rightarrow>
          50 \<le> i \<and> tasks s = [] \<and> settled stocks i (events s) \<and> below i (events s)
      | Gathering i \<Rightarrow>
          50 \<le> i \<and> bounded i (events s) \<and> settled stocks i (events s) \<and>
          map fst (tasks s) = stocks \<and>
          (\<forall>t\<in>set (tasks s). fst (snd t) = i \<and>
             (\<forall>r. snd (snd t) = Finished r \<longrightarrow> Task (fst t) i Resolve \<in> set (events s)))
      | Returned \<Rightarrow> (\<exists>i. bounded i (events s) \<and> settled stocks i (events s))
      | Raised ex \<Rightarrow> (\<exists>i. bounded i (events s) \<and> settled stocks i (events s)))"

subsection \<open>Sample runs\<close>

text \<open>The row printed for the breakout day, and what a task that passes both screens does.\<close>

definition hot_row :: row where
  "hot_row = \<lparr>row_stock = ''AAPL'', row_date = 7, row_sector = ''Technology'', row_mc = ''2.5T'',
              row_equity_vol = round_half_even (73000000 / 49), row_gap = Fin 50,
              row_vol_ratio = Fin 5, row_sf = ''0.7%'',
              row_vol = calculate_volatility (map Close baseline) ''AAPL'',
              row_evidence_of_selling = ''No''\<rparr>"

definition passing_actions :: "action list" where
  "passing_actions = [Call_market_cap, Call_short_float, Call_sector, Call_current_price,
                      Call_evidence_of_selling 7, Print_row hot_row]"

text \<open>What a batch of the one symbol AAPL adds to the trace when its task passes.\<close>

definition batch_events :: "nat \<Rightarrow> event list" where
  "batch_events i =
     Print_separator i # Task ''AAPL'' i Call_history #
     map (Task ''AAPL'' i) passing_actions @ [Task ''AAPL'' i Resolve]"

text \<open>The run after the batches of the windows 50 and 51, the symbol passing in both.\<close>

definition two_batches :: run where
  "two_batches =
     \<lparr>pc = Iteration 52, tasks = [],
      watch = \<lparr>stocks_in_play = 2, sizzlers = [''AAPL'']\<rparr>,
      events = Print_header # batch_events 50 @ batch_events 51\<rparr>"

text \<open>The run on the frame with a zero high after \<^verbatim>\<open>gather\<close> raised into \<^verbatim>\<open>main\<close>.\<close>

definition aborted :: run where
  "aborted =
     \<lparr>pc = Raised OverflowError,
      tasks = [(''AAPL'', 50, Finished (Some OverflowError))],
      watch = \<lparr>stocks_in_play = 0, sizzlers = []\<rparr>,
      events = [Print_header, Print_separator 50, Task ''AAPL'' 50 Call_history,
                Task ''AAPL'' 50 Resolve]\<rparr>"

text \<open>
  The states a run on that frame can be in: no summary is printed, and \<^verbatim>\<open>main\<close> is before
  the first batch, waiting for it (its one task not returning normally), or over by an
  exception.
\<close>

definition doomed :: "run \<Rightarrow> bool" where
  "doomed s \<longleftrightarrow>
     (\<forall>n m. Print_summary n m \<notin> set (events s)) \<and>
     (pc s = Iteration 50 \<and> tasks s = [] \<or>
      pc s = Gathering 50 \<and> tasks s \<noteq> [] \<and>
        set (tasks s) \<subseteq> {(''AAPL'', 50, Created), (''AAPL'', 50, Fetching),
                           (''AAPL'', 50, Finished (Some OverflowError))} \<or>
      (\<exists>ex. pc s = Raised ex))"

section \<open>The momentum flag\<close>




section \<open>Volatility of a short window\<close>

text \<open>
  Claim C5, as the specification states it, has the volatility of fewer than two prices be
  the string "No data". The code never raises there, so its handler does not run: the list
  of log returns is empty, its mean is NaN, and NaN is what comes back.
\<close>

theorem calculate_volatility_empty_counterexample:
  "calculate_volatility [] ''AAPL'' = PyFloat NaN \<and>
   calculate_volatility [] ''AAPL'' \<noteq> PyStr ''No data''"
  by (simp add: calculate_volatility_def log_returns_def np_mean_def)

text \<open>
  Claim C5, amended: on a window of fewer than two closing prices the volatility is the
  double NaN; it is not the string "No data", it is not zero nor any other finite number,
  and nothing is raised.
\<close>

theorem calculate_volatility_short:
  "length closing_prices < 2 \<longrightarrow>
     calculate_volatility closing_prices stock = PyFloat NaN \<and>
     calculate_volatility closing_prices stock \<noteq> PyStr ''No data'' \<and>
     (\<forall>v. calculate_volatility closing_prices stock \<noteq> PyFloat (Fin v))"
proof
  assume "length closing_prices < 2"
  then have "tl closing_prices = []"
    by (cases closing_prices) auto
  then have "calculate_volatility closing_prices stock = PyFloat NaN"
    by (simp add: calculate_volatility_def log_returns_def np_mean_def)
  then show "calculate_volatility closing_prices stock = PyFloat NaN \<and>
     calculate_volatility closing_prices stock \<noteq> PyStr ''No data'' \<and>
     (\<forall>v. calculate_volatility closing_prices stock \<noteq> PyFloat (Fin v))"
    by simp
qed

theorem calculate_volatility_short_witness:
  "length [101.5::real] < 2 \<and> calculate_volatility [101.5] ''AAPL'' = PyFloat NaN \<and>
   calculate_volatility [101.5] ''AAPL'' \<noteq> PyStr ''No data''"
  using calculate_volatility_short [of "[101.5]" "''AAPL''"]
  by simp

section \<open>The selling-pressure flag\<close>

lemma filter_first_index:
  "filter P xs = r # rs \<Longrightarrow> \<exists>i<length xs. xs ! i = r \<and> P r \<and> (\<forall>j<i. \<not> P (xs ! j))"
proof (induction xs)
  case Nil
  then show ?case by simp
next
  case (Cons x xs)
  show ?case
  proof (cases "P x")
    case True
    with Cons.prems have "x = r" by simp
    with True show ?thesis by (intro exI [of _ 0]) simp
  next
    case False
    with Cons.prems have "filter P xs = r # rs" by simp
    from Cons.IH [OF this] obtain i where i: "i < length xs" "xs ! i = r" "P r" "\<forall>j<i. \<not> P (xs ! j)"
      by blast
    have "\<forall>j<Suc i. \<not> P ((x # xs) ! j)"
      using False i(4) by (auto simp: less_Suc_eq_0_disj)
    with i show ?thesis by (intro exI [of _ "Suc i"]) simp
  qed
qed

lemma nth_trim: "k < length (butlast (tl xs)) \<Longrightarrow> butlast (tl xs) ! k = xs ! Suc k"
  by (simp add: nth_butlast nth_tl)

lemma length_trim: "length (butlast (tl xs)) = length xs - 2"
  by simp

lemma max_filter_nonempty:
  "df \<noteq> [] \<Longrightarrow> filter (\<lambda>b. mVolume b = Max (set (map mVolume df))) df \<noteq> []"
proof -
  assume ne: "df \<noteq> []"
  then have "Max (set (map mVolume df)) \<in> set (map mVolume df)"
    by (intro Max_in) auto
  then obtain b where "b \<in> set df" "mVolume b = Max (set (map mVolume df))" by auto
  then show ?thesis by (auto simp: filter_empty_conv)
qed

lemma evidence_trimmed:
  assumes "df \<noteq> []"
  shows "\<exists>i<length df.
           (\<forall>j<length df. mVolume (df ! j) \<le> mVolume (df ! i)) \<and>
           (\<forall>j<i. mVolume (df ! j) < mVolume (df ! i)) \<and>
           (case filter (\<lambda>b. mVolume b = Max (set (map mVolume df))) df of
              [] \<Rightarrow> ''No data''
            | row # _ \<Rightarrow> if mClose row \<le> mOpen row then ''Yes'' else ''No'')
           = (if mClose (df ! i) \<le> mOpen (df ! i) then ''Yes'' else ''No'')"
proof -
  let ?m = "Max (set (map mVolume df))"
  obtain r rs where f: "filter (\<lambda>b. mVolume b = ?m) df = r # rs"
    using max_filter_nonempty [OF assms] by (cases "filter (\<lambda>b. mVolume b = ?m) df") auto
  from filter_first_index [OF f] obtain i where
    i: "i < length df" "df ! i = r" "mVolume r = ?m" "\<forall>j<i. mVolume (df ! j) \<noteq> ?m"
    by blast
  have le: "mVolume (df ! j) \<le> ?m" if "j < length df" for j
    using that by (intro Max_ge) auto
  have "\<forall>j<i. mVolume (df ! j) < mVolume (df ! i)"
  proof (intro allI impI)
    fix j assume "j < i"
    with i(1) have "j < length df" by simp
    from le [OF this] i(4) \<open>j < i\<close> i(2,3) show "mVolume (df ! j) < mVolume (df ! i)"
      by (simp add: order_less_le)
  qed
  moreover have "\<forall>j<length df. mVolume (df ! j) \<le> mVolume (df ! i)"
    using le i(2,3) by simp
  ultimately show ?thesis using i(1,2) f by (intro exI [of _ i]) simp
qed

text \<open>
  Claim C7: without a series the flag is "No data"; with at most two bars nothing is left
  after the first and the last bar are dropped, and the flag is "No data"; otherwise there
  is a bar \<open>i\<close> strictly between the first and the last whose volume is the largest among
  those bars and strictly larger than that of every such bar before it (the first
  occurrence of the maximum), and the flag is "Yes" when that bar's open is at least its
  close and "No" otherwise.
\<close>

theorem selling_pressure_flag:
  "get_evidence_of_selling None stock = ''No data'' \<and>
   (length df0 \<le> 2 \<longrightarrow> get_evidence_of_selling (Some df0) stock = ''No data'') \<and>
   (2 < length df0 \<longrightarrow>
      (\<exists>i. 0 < i \<and> i + 1 < length df0 \<and>
         (\<forall>j. 0 < j \<and> j + 1 < length df0 \<longrightarrow> mVolume (df0 ! j) \<le> mVolume (df0 ! i)) \<and>
         (\<forall>j. 0 < j \<and> j < i \<longrightarrow> mVolume (df0 ! j) < mVolume (df0 ! i)) \<and>
         get_evidence_of_selling (Some df0) stock =
           (if mClose (df0 ! i) \<le> mOpen (df0 ! i) then ''Yes'' else ''No'')))"
proof (intro conjI impI)
  show "get_evidence_of_selling None stock = ''No data''"
    by (simp add: get_evidence_of_selling_def)
next
  assume "length df0 \<le> 2"
  then have "butlast (tl df0) = []" by (simp flip: length_0_conv)
  then show "get_evidence_of_selling (Some df0) stock = ''No data''"
    by (simp add: get_evidence_of_selling_def volume_max_def)
next
  assume len: "2 < length df0"
  let ?df = "butlast (tl df0)"
  have ne: "?df \<noteq> []" using len by (simp flip: length_0_conv)
  from evidence_trimmed [OF ne] obtain k where
    k: "k < length ?df"
       "\<forall>j<length ?df. mVolume (?df ! j) \<le> mVolume (?df ! k)"
       "\<forall>j<k. mVolume (?df ! j) < mVolume (?df ! k)"
       "(case filter (\<lambda>b. mVolume b = Max (set (map mVolume ?df))) ?df of
              [] \<Rightarrow> ''No data''
            | row # _ \<Rightarrow> if mClose row \<le> mOpen row then ''Yes'' else ''No'')
           = (if mClose (?df ! k) \<le> mOpen (?df ! k) then ''Yes'' else ''No'')"
    by blast
  have nth: "?df ! j = df0 ! Suc j" if "j < length ?df" for j
    using that by (rule nth_trim)
  have lt: "length ?df = length df0 - 2" by simp
  have a: "\<forall>j. 0 < j \<and> j + 1 < length df0 \<longrightarrow> mVolume (df0 ! j) \<le> mVolume (df0 ! Suc k)"
  proof (intro allI impI)
    fix j assume j: "0 < j \<and> j + 1 < length df0"
    then obtain j' where j': "j = Suc j'" by (cases j) auto
    with j have "j' < length ?df" by simp
    with k(2) nth [OF this] nth [OF k(1)] j' show "mVolume (df0 ! j) \<le> mVolume (df0 ! Suc k)"
      by auto
  qed
  have b: "\<forall>j. 0 < j \<and> j < Suc k \<longrightarrow> mVolume (df0 ! j) < mVolume (df0 ! Suc k)"
  proof (intro allI impI)
    fix j assume j: "0 < j \<and> j < Suc k"
    then obtain j' where j': "j = Suc j'" by (cases j) auto
    with j have jk: "j' < k" by simp
    with k(1) have "j' < length ?df" by simp
    with k(3) jk nth [OF this] nth [OF k(1)] j' show "mVolume (df0 ! j) < mVolume (df0 ! Suc k)"
      by auto
  qed
  have c: "get_evidence_of_selling (Some df0) stock =
           (if mClose (df0 ! Suc k) \<le> mOpen (df0 ! Suc k) then ''Yes'' else ''No'')"
    using k(4) ne nth [OF k(1)] by (simp add: get_evidence_of_selling_def volume_max_def)
  have "0 < Suc k \<and> Suc k + 1 < length df0" using k(1) len by simp
  with a b c show "\<exists>i. 0 < i \<and> i + 1 < length df0 \<and>
         (\<forall>j. 0 < j \<and> j + 1 < length df0 \<longrightarrow> mVolume (df0 ! j) \<le> mVolume (df0 ! i)) \<and>
         (\<forall>j. 0 < j \<and> j < i \<longrightarrow> mVolume (df0 ! j) < mVolume (df0 ! i)) \<and>
         get_evidence_of_selling (Some df0) stock =
           (if mClose (df0 ! i) \<le> mOpen (df0 ! i) then ''Yes'' else ''No'')"
    by blast
qed

theorem selling_pressure_flag_witness:
  "2 < length [\<lparr>mOpen = 10, mClose = 11, mVolume = 900\<rparr>, \<lparr>mOpen = 11, mClose = 12, mVolume = 50\<rparr>,
               \<lparr>mOpen = 12, mClose = 11, mVolume = 70\<rparr>, \<lparr>mOpen = 11, mClose = 13, mVolume = 70\<rparr>,
               \<lparr>mOpen = 13, mClose = 14, mVolume = 800\<rparr>] \<and>
   get_evidence_of_selling
     (Some [\<lparr>mOpen = 10, mClose = 11, mVolume = 900\<rparr>, \<lparr>mOpen = 11, mClose = 12, mVolume = 50\<rparr>,
            \<lparr>mOpen = 12, mClose = 11, mVolume = 70\<rparr>, \<lparr>mOpen = 11, mClose = 13, mVolume = 70\<rparr>,
            \<lparr>mOpen = 13, mClose = 14, mVolume = 800\<rparr>]) ''AAPL'' = ''Yes'' \<and>
   length [\<lparr>mOpen = 10, mClose = 11, mVolume = 900\<rparr>, \<lparr>mOpen = 11, mClose = 12, mVolume = 50\<rparr>] \<le> 2 \<and>
   get_evidence_of_selling
     (Some [\<lparr>mOpen = 10, mClose = 11, mVolume = 900\<rparr>, \<lparr>mOpen = 11, mClose = 12, mVolume = 50\<rparr>])
     ''AAPL'' = ''No data''"
  using selling_pressure_flag [of "''AAPL''"
          "[\<lparr>mOpen = 10, mClose = 11, mVolume = 900\<rparr>, \<lparr>mOpen = 11, mClose = 12, mVolume = 50\<rparr>,
            \<lparr>mOpen = 12, mClose = 11, mVolume = 70\<rparr>, \<lparr>mOpen = 11, mClose = 13, mVolume = 70\<rparr>,
            \<lparr>mOpen = 13, mClose = 14, mVolume = 800\<rparr>]"]
        selling_pressure_flag [of "''AAPL''"
          "[\<lparr>mOpen = 10, mClose = 11, mVolume = 900\<rparr>, \<lparr>mOpen = 11, mClose = 12, mVolume = 50\<rparr>]"]
  by (simp add: get_evidence_of_selling_def volume_max_def)

section \<open>Facts about means, medians and the sample data\<close>

lemma take49_nonempty: "50 \<le> length sd \<Longrightarrow> take 49 sd \<noteq> []"
  by (cases sd) auto

lemma pd_mean_volumes_zero:
  assumes "pd_mean (map (\<lambda>b. real (Volume b)) bs) = Fin 0"
  shows "\<forall>b\<in>set bs. Volume b = 0"
proof -
  from assms have ne: "bs \<noteq> []" by (auto simp: pd_mean_def)
  with assms have "sum_list (map (\<lambda>b. real (Volume b)) bs) = 0"
    by (simp add: pd_mean_def)
  moreover have "\<And>x. x \<in> set (map (\<lambda>b. real (Volume b)) bs) \<Longrightarrow> 0 \<le> x" by auto
  ultimately have "\<forall>x\<in>set (map (\<lambda>b. real (Volume b)) bs). x = 0"
    by (simp only: sum_list_nonneg_eq_0_iff)
  then show ?thesis by simp
qed

lemma pd_median_const:
  assumes "xs \<noteq> []" and "\<forall>x\<in>set xs. x = c"
  shows "pd_median xs = Fin c"
proof -
  have z: "sort xs ! k = c" if "k < length xs" for k
  proof -
    from that have "sort xs ! k \<in> set (sort xs)" by (intro nth_mem) simp
    with assms(2) show ?thesis by simp
  qed
  have n: "0 < length xs" using assms(1) by simp
  then have a: "length xs div 2 < length xs" by simp
  then have b: "length xs div 2 - 1 < length xs" by simp
  show ?thesis using n z [OF a] z [OF b] by (simp add: pd_median_def Let_def)
qed

lemma round_half_even_int: "round_half_even (of_int n) = n"
  by (simp add: round_half_even_def)

lemma length_baseline: "length baseline = 49"
  by (simp add: baseline_def)

lemma baseline_row_49: "(baseline @ b # bs) ! 49 = b"
  by (simp add: nth_append length_baseline)

lemma baseline_row_48: "(baseline @ bs) ! 48 = calm_lo"
  by (simp add: nth_append length_baseline) (simp add: baseline_def)

lemma baseline_take_49: "take 49 (baseline @ bs) = baseline"
  by (simp add: length_baseline)

lemma baseline_volumes: "\<forall>b\<in>set baseline. Volume b = 1000000"
  by (simp add: baseline_def calm_lo_def calm_hi_def)

lemma baseline_volumes_sum: "sum_list (map (\<lambda>b. real (Volume b)) baseline) = 49000000"
  by (simp add: baseline_def calm_lo_def calm_hi_def)

lemma baseline_avg_vol: "avg_vol (baseline @ bs) = Fin 1000000"
  unfolding avg_vol_def baseline_take_49
  using length_baseline by (auto simp: pd_mean_def baseline_volumes_sum)

lemma baseline_closes_sum: "sum_list (map Close baseline) = 73"
  by (simp add: baseline_def calm_lo_def calm_hi_def)

lemma baseline_equity_vol: "equity_vol (baseline @ bs) = Fin (73000000 / 49)"
proof -
  have ne: "baseline \<noteq> []" using length_baseline by auto
  have "pd_median (map (\<lambda>b. real (Volume b)) baseline) = Fin 1000000"
    using baseline_volumes ne by (intro pd_median_const) auto
  moreover have "pd_mean (map Close baseline) = Fin (73 / 49)"
    using ne by (simp add: pd_mean_def baseline_closes_sum length_baseline)
  ultimately show ?thesis unfolding equity_vol_def baseline_take_49 by simp
qed

lemma baseline_gap: "gap (baseline @ breakout v # bs) = Fin 50"
  by (simp add: gap_def baseline_row_49 baseline_row_48 breakout_def calm_lo_def)

lemma baseline_green: "green_initial_day (baseline @ breakout v # bs)"
  by (simp add: green_initial_day_def baseline_row_49 breakout_def)

lemma baseline_vol_ratio: "vol_ratio (baseline @ breakout v # bs) = Fin (real v / 1000000)"
  by (simp add: vol_ratio_def baseline_avg_vol baseline_row_49 breakout_def)

lemma answering_history: "history (answering frame) stock i = frame @ replicate (i - 50) calm_lo"
  by (simp add: answering_def)

lemma length_halted: "length halted = 50"
  by (simp add: halted_def length_baseline)

lemma halted_avg_vol: "avg_vol halted = Fin 0"
proof -
  have "take 49 halted = map (\<lambda>b. b\<lparr>Volume := 0\<rparr>) baseline"
    by (simp add: halted_def length_baseline)
  moreover have "baseline \<noteq> []" using length_baseline by auto
  ultimately show ?thesis by (simp add: avg_vol_def pd_mean_def comp_def)
qed

lemma halted_row_49: "halted ! 49 = breakout 1000"
  by (simp add: halted_def nth_append length_baseline)

lemma halted_row_48: "High (halted ! 48) = 2"
  by (simp add: halted_def nth_append length_baseline) (simp add: baseline_def calm_lo_def)

lemma breakout_frame_screen:
  "50 \<le> length (baseline @ [breakout v])"
  "green_initial_day (baseline @ [breakout v])"
  "py_round (gap (baseline @ [breakout v])) = Inr 50"
  "fge (equity_vol (baseline @ [breakout v])) (Fin 250000)"
  "Date ((baseline @ [breakout v]) ! 49) = 7"
proof -
  show "50 \<le> length (baseline @ [breakout v])" by (simp add: length_baseline)
  show "green_initial_day (baseline @ [breakout v])" by (rule baseline_green)
  show "py_round (gap (baseline @ [breakout v])) = Inr 50"
    using round_half_even_int [of 50] by (simp add: baseline_gap)
  show "fge (equity_vol (baseline @ [breakout v])) (Fin 250000)"
    by (simp add: baseline_equity_vol fge_def)
  show "Date ((baseline @ [breakout v]) ! 49) = 7"
    by (simp add: baseline_row_49 breakout_def)
qed

lemma breakout_frame_ratio:
  "py_round (vol_ratio (baseline @ [breakout 3000000])) = Inr 3"
  "py_round (vol_ratio (baseline @ [breakout 5000000])) = Inr 5"
proof -
  show "py_round (vol_ratio (baseline @ [breakout 3000000])) = Inr 3"
    using round_half_even_int [of 3] by (simp add: baseline_vol_ratio)
  show "py_round (vol_ratio (baseline @ [breakout 5000000])) = Inr 5"
    using round_half_even_int [of 5] by (simp add: baseline_vol_ratio)
qed

lemma answering_history_50: "history (answering frame) stock 50 = frame"
  by (simp add: answering_history)

section \<open>A zero average volume\<close>

lemma equity_vol_zero:
  assumes "50 \<le> length sd" and "avg_vol sd = Fin 0"
  shows "equity_vol sd = Fin 0"
proof -
  have ne: "take 49 sd \<noteq> []" using assms(1) by (rule take49_nonempty)
  from assms(2) have "\<forall>b\<in>set (take 49 sd). Volume b = 0"
    unfolding avg_vol_def by (rule pd_mean_volumes_zero)
  then have "pd_median (map (\<lambda>b. real (Volume b)) (take 49 sd)) = Fin 0"
    using ne by (intro pd_median_const) auto
  moreover have "pd_mean (map Close (take 49 sd)) = Fin (sum_list (map Close (take 49 sd)) / real (length (take 49 sd)))"
    using ne by (simp add: pd_mean_def)
  ultimately show ?thesis by (simp add: equity_vol_def)
qed

lemma vol_ratio_zero_avg:
  "avg_vol sd = Fin 0 \<Longrightarrow> vol_ratio sd = (if 0 < Volume (sd ! 49) then PInf else NaN)"
  by (simp add: vol_ratio_def inf_times_def)

lemma gap_finite: "High (sd ! 48) \<noteq> 0 \<Longrightarrow> \<exists>g. gap sd = Fin g"
  by (simp add: gap_def)

lemma initial_screen_zero_avg:
  assumes "50 \<le> length sd" and "avg_vol sd = Fin 0"
  shows "initial_screen sd \<noteq> Inr True"
    and "High (sd ! 48) \<noteq> 0 \<Longrightarrow> initial_screen sd = Inr False"
proof -
  have e: "equity_vol sd = Fin 0" using assms by (rule equity_vol_zero)
  show "initial_screen sd \<noteq> Inr True"
    by (simp add: initial_screen_def e fge_def split: sum.splits)
  assume "High (sd ! 48) \<noteq> 0"
  then obtain g where "gap sd = Fin g" using gap_finite by blast
  then show "initial_screen sd = Inr False"
    by (simp add: initial_screen_def e fge_def)
qed

text \<open>
  Claim C3, as the specification states it, has the volume ratio be a sentinel when the
  average volume is 0, never an infinity. The code divides (line 141): with a thousand
  shares today over an average of 0 the ratio is plus infinity, and \<^verbatim>\<open>round\<close> of it, the
  last operand of line 143, raises OverflowError whenever it is evaluated.
\<close>

theorem zero_average_volume_counterexample:
  "avg_vol halted = Fin 0 \<and> vol_ratio halted = PInf \<and>
   py_round (vol_ratio halted) = Inl OverflowError"
  by (simp add: vol_ratio_def halted_avg_vol halted_row_49 breakout_def inf_times_def)

text \<open>
  Claim C3, amended: when the average volume of the 49 baseline days is 0, the ratio is
  plus infinity (today's volume positive) or NaN (today's volume 0), not a sentinel; the
  equity-volume estimate is then 0, so the condition of line 143 is never true and stops
  before the ratio is rounded: nothing is fetched, nothing is printed, the Watchlist is
  unchanged, and unless yesterday's high is 0 (an infinite or NaN gap, whose rounding
  raises) the evaluation returns without an exception.
\<close>

theorem zero_average_volume:
  "50 \<le> length (history p stock i) \<and> avg_vol (history p stock i) = Fin 0 \<longrightarrow>
     vol_ratio (history p stock i) = (if 0 < Volume (history p stock i ! 49) then PInf else NaN) \<and>
     equity_vol (history p stock i) = Fin 0 \<and>
     initial_screen (history p stock i) \<noteq> Inr True \<and>
     snd (get_stock_data p w stock i) = (w, []) \<and>
     (High (history p stock i ! 48) \<noteq> 0 \<longrightarrow> get_stock_data p w stock i = (None, w, []))"
proof (intro impI, elim conjE)
  let ?sd = "history p stock i"
  assume len: "50 \<le> length ?sd" and avg: "avg_vol ?sd = Fin 0"
  note scr = initial_screen_zero_avg [OF len avg]
  have a: "snd (get_stock_data p w stock i) = (w, [])"
    using len scr(1)
    by (cases "initial_screen ?sd")
       (auto simp: get_stock_data_def get_stock_data_try_def split: exn.splits bool.splits)
  have b: "get_stock_data p w stock i = (None, w, [])" if "High (?sd ! 48) \<noteq> 0"
    using len scr(2) [OF that] by (simp add: get_stock_data_def get_stock_data_try_def)
  show "vol_ratio ?sd = (if 0 < Volume (?sd ! 49) then PInf else NaN) \<and>
     equity_vol ?sd = Fin 0 \<and>
     initial_screen ?sd \<noteq> Inr True \<and>
     snd (get_stock_data p w stock i) = (w, []) \<and>
     (High (?sd ! 48) \<noteq> 0 \<longrightarrow> get_stock_data p w stock i = (None, w, []))"
    using vol_ratio_zero_avg [OF avg] equity_vol_zero [OF len avg] scr(1) a b by simp
qed

theorem zero_average_volume_witness:
  "50 \<le> length (history (answering halted) ''AAPL'' 50) \<and>
   avg_vol (history (answering halted) ''AAPL'' 50) = Fin 0 \<and>
   vol_ratio (history (answering halted) ''AAPL'' 50) = PInf \<and>
   equity_vol (history (answering halted) ''AAPL'' 50) = Fin 0 \<and>
   High (history (answering halted) ''AAPL'' 50 ! 48) \<noteq> 0 \<and>
   get_stock_data (answering halted) (watch initial) ''AAPL'' 50 = (None, watch initial, [])"
  using zero_average_volume [of "answering halted" "''AAPL''" 50 "watch initial"]
  by (simp add: answering_history length_halted halted_avg_vol halted_row_49 halted_row_48 breakout_def)

section \<open>The initial screen\<close>

lemma initial_screen_True_iff:
  "initial_screen sd = Inr True \<longleftrightarrow>
     green_initial_day sd \<and> (\<exists>g. py_round (gap sd) = Inr g \<and> 2 \<le> g) \<and>
     fge (equity_vol sd) (Fin 250000) \<and> (\<exists>r. py_round (vol_ratio sd) = Inr r \<and> 3 < r)"
  by (auto simp: initial_screen_def split: sum.splits)

lemma passed_screen_calls:
  "\<exists>rest. snd (snd (passed_screen p w stock sd)) =
     [Call_market_cap, Call_short_float, Call_sector, Call_current_price,
      Call_evidence_of_selling (Date (sd ! 49))] @ rest"
  by (simp add: passed_screen_def Let_def split: sum.splits)

lemma get_stock_data_passed:
  "50 \<le> length (history p stock i) \<Longrightarrow> initial_screen (history p stock i) = Inr True \<Longrightarrow>
   get_stock_data_try p w stock i = passed_screen p w stock (history p stock i)"
  by (simp add: get_stock_data_try_def)

lemma get_stock_data_rejected:
  "50 \<le> length (history p stock i) \<Longrightarrow> initial_screen (history p stock i) \<noteq> Inr True \<Longrightarrow>
   snd (get_stock_data p w stock i) = (w, [])"
  by (cases "initial_screen (history p stock i)")
     (auto simp: get_stock_data_def get_stock_data_try_def split: exn.splits bool.splits)

lemma get_stock_data_actions:
  "snd (snd (get_stock_data p w stock i)) = snd (snd (get_stock_data_try p w stock i))"
  by (cases "get_stock_data_try p w stock i")
     (auto simp: get_stock_data_def split: option.splits exn.splits)

text \<open>
  Claim C6: for a frame of at least 50 rows, a green day with a rounded gap of at least 2
  and an equity-volume estimate of at least 250,000 whose volume ratio rounds to 3 does no
  collector call, prints nothing and leaves the Watchlist as it was; the five collector
  calls are done exactly when all four conditions of the screen hold, and otherwise
  nothing is done and the Watchlist is unchanged.
\<close>

theorem screen_short_circuit:
  "50 \<le> length (history p stock i) \<longrightarrow>
     (green_initial_day (history p stock i) \<and>
      (\<exists>g. py_round (gap (history p stock i)) = Inr g \<and> 2 \<le> g) \<and>
      fge (equity_vol (history p stock i)) (Fin 250000) \<and>
      py_round (vol_ratio (history p stock i)) = Inr 3
        \<longrightarrow> get_stock_data p w stock i = (None, w, [])) \<and>
     ((\<exists>rest. snd (snd (get_stock_data p w stock i)) =
          [Call_market_cap, Call_short_float, Call_sector, Call_current_price,
           Call_evidence_of_selling (Date (history p stock i ! 49))] @ rest)
        \<longleftrightarrow>
      (green_initial_day (history p stock i) \<and>
       (\<exists>g. py_round (gap (history p stock i)) = Inr g \<and> 2 \<le> g) \<and>
       fge (equity_vol (history p stock i)) (Fin 250000) \<and>
       (\<exists>r. py_round (vol_ratio (history p stock i)) = Inr r \<and> 3 < r))) \<and>
     (\<not> (green_initial_day (history p stock i) \<and>
       (\<exists>g. py_round (gap (history p stock i)) = Inr g \<and> 2 \<le> g) \<and>
       fge (equity_vol (history p stock i)) (Fin 250000) \<and>
       (\<exists>r. py_round (vol_ratio (history p stock i)) = Inr r \<and> 3 < r))
        \<longrightarrow> snd (get_stock_data p w stock i) = (w, []))"
proof
  let ?sd = "history p stock i"
  let ?four = "green_initial_day ?sd \<and> (\<exists>g. py_round (gap ?sd) = Inr g \<and> 2 \<le> g) \<and>
       fge (equity_vol ?sd) (Fin 250000) \<and> (\<exists>r. py_round (vol_ratio ?sd) = Inr r \<and> 3 < r)"
  assume len: "50 \<le> length ?sd"
  have three: "get_stock_data p w stock i = (None, w, [])"
    if "green_initial_day ?sd \<and> (\<exists>g. py_round (gap ?sd) = Inr g \<and> 2 \<le> g) \<and>
        fge (equity_vol ?sd) (Fin 250000) \<and> py_round (vol_ratio ?sd) = Inr 3"
  proof -
    from that have "initial_screen ?sd = Inr False"
      by (auto simp: initial_screen_def)
    with len show ?thesis by (simp add: get_stock_data_def get_stock_data_try_def)
  qed
  have rej: "snd (get_stock_data p w stock i) = (w, [])" if "\<not> ?four"
    using len that get_stock_data_rejected [of p stock i w] by (simp add: initial_screen_True_iff)
  have acc: "\<exists>rest. snd (snd (get_stock_data p w stock i)) =
          [Call_market_cap, Call_short_float, Call_sector, Call_current_price,
           Call_evidence_of_selling (Date (?sd ! 49))] @ rest" if "?four"
  proof -
    from that have "initial_screen ?sd = Inr True" by (simp add: initial_screen_True_iff)
    with len have "get_stock_data_try p w stock i = passed_screen p w stock ?sd"
      by (rule get_stock_data_passed)
    then show ?thesis
      using passed_screen_calls [of p w stock ?sd] by (simp add: get_stock_data_actions)
  qed
  have conv: "?four" if "\<exists>rest. snd (snd (get_stock_data p w stock i)) =
          [Call_market_cap, Call_short_float, Call_sector, Call_current_price,
           Call_evidence_of_selling (Date (?sd ! 49))] @ rest"
  proof (rule ccontr)
    assume "\<not> ?four"
    from rej [OF this] that show False by auto
  qed
  show "(green_initial_day ?sd \<and> (\<exists>g. py_round (gap ?sd) = Inr g \<and> 2 \<le> g) \<and>
      fge (equity_vol ?sd) (Fin 250000) \<and> py_round (vol_ratio ?sd) = Inr 3
        \<longrightarrow> get_stock_data p w stock i = (None, w, [])) \<and>
     ((\<exists>rest. snd (snd (get_stock_data p w stock i)) =
          [Call_market_cap, Call_short_float, Call_sector, Call_current_price,
           Call_evidence_of_selling (Date (?sd ! 49))] @ rest) \<longleftrightarrow> ?four) \<and>
     (\<not> ?four \<longrightarrow> snd (get_stock_data p w stock i) = (w, []))"
    using three rej acc conv by blast
qed

theorem screen_short_circuit_witness:
  "50 \<le> length (history (answering (baseline @ [breakout 3000000])) ''AAPL'' 50) \<and>
   green_initial_day (history (answering (baseline @ [breakout 3000000])) ''AAPL'' 50) \<and>
   py_round (gap (history (answering (baseline @ [breakout 3000000])) ''AAPL'' 50)) = Inr 50 \<and>
   fge (equity_vol (history (answering (baseline @ [breakout 3000000])) ''AAPL'' 50)) (Fin 250000) \<and>
   py_round (vol_ratio (history (answering (baseline @ [breakout 3000000])) ''AAPL'' 50)) = Inr 3 \<and>
   get_stock_data (answering (baseline @ [breakout 3000000])) (watch initial) ''AAPL'' 50
     = (None, watch initial, []) \<and>
   py_round (vol_ratio (history (answering (baseline @ [breakout 5000000])) ''AAPL'' 50)) = Inr 5 \<and>
   (\<exists>rest. snd (snd (get_stock_data (answering (baseline @ [breakout 5000000])) (watch initial) ''AAPL'' 50))
      = [Call_market_cap, Call_short_float, Call_sector, Call_current_price,
         Call_evidence_of_selling 7] @ rest)"
proof -
  let ?f3 = "baseline @ [breakout 3000000]"
  let ?f5 = "baseline @ [breakout 5000000]"
  have h3: "history (answering ?f3) ''AAPL'' 50 = ?f3"
    and h5: "history (answering ?f5) ''AAPL'' 50 = ?f5"
    by (rule answering_history_50)+
  have g3: "\<exists>g. py_round (gap ?f3) = Inr g \<and> 2 \<le> g"
    using breakout_frame_screen(3) [of 3000000] by simp
  have g5: "\<exists>g. py_round (gap ?f5) = Inr g \<and> 2 \<le> g"
    using breakout_frame_screen(3) [of 5000000] by simp
  have r5: "\<exists>r. py_round (vol_ratio ?f5) = Inr r \<and> 3 < r"
    using breakout_frame_ratio(2) by simp
  note t3 = screen_short_circuit [of "answering ?f3" "''AAPL''" 50 "watch initial", unfolded h3,
      THEN mp, OF breakout_frame_screen(1), THEN conjunct1, THEN mp]
  have a: "get_stock_data (answering ?f3) (watch initial) ''AAPL'' 50 = (None, watch initial, [])"
    by (rule t3) (intro conjI breakout_frame_screen g3 breakout_frame_ratio)
  note t5 = screen_short_circuit [of "answering ?f5" "''AAPL''" 50 "watch initial", unfolded h5,
      THEN mp, OF breakout_frame_screen(1), THEN conjunct2, THEN conjunct1, THEN iffD2]
  have b: "\<exists>rest. snd (snd (get_stock_data (answering ?f5) (watch initial) ''AAPL'' 50))
      = [Call_market_cap, Call_short_float, Call_sector, Call_current_price,
         Call_evidence_of_selling (Date (?f5 ! 49))] @ rest"
    by (rule t5) (intro conjI breakout_frame_screen g5 r5)
  show ?thesis
    unfolding h3 h5
    using b unfolding breakout_frame_screen(5)
    by (intro conjI breakout_frame_screen breakout_frame_ratio a)
qed

section \<open>Which row is today\<close>

lemma frame_agree:
  assumes "take 50 sd' = take 50 sd" and "50 \<le> length sd"
  shows "50 \<le> length sd'" and "sd' ! 49 = sd ! 49" and "sd' ! 48 = sd ! 48"
    and "take 49 sd' = take 49 sd"
proof -
  from assms have "length (take 50 sd') = 50" by simp
  then show len: "50 \<le> length sd'" by simp
  have "sd' ! 49 = take 50 sd' ! 49" by simp
  also have "\<dots> = sd ! 49" unfolding assms(1) by simp
  finally show "sd' ! 49 = sd ! 49" .
  have "sd' ! 48 = take 50 sd' ! 48" by simp
  also have "\<dots> = sd ! 48" unfolding assms(1) by simp
  finally show "sd' ! 48 = sd ! 48" .
  have "take 49 sd' = take 49 (take 50 sd')" by simp
  also have "\<dots> = take 49 sd" unfolding assms(1) by simp
  finally show "take 49 sd' = take 49 sd" .
qed

lemma metrics_agree:
  assumes "take 50 sd' = take 50 sd" and "50 \<le> length sd"
  shows "gap sd' = gap sd" and "green_initial_day sd' = green_initial_day sd"
    and "avg_vol sd' = avg_vol sd" and "equity_vol sd' = equity_vol sd"
    and "vol_ratio sd' = vol_ratio sd" and "initial_screen sd' = initial_screen sd"
proof -
  note fa = frame_agree [OF assms]
  show g: "gap sd' = gap sd" by (simp add: gap_def fa)
  show gr: "green_initial_day sd' = green_initial_day sd" by (simp add: green_initial_day_def fa)
  show a: "avg_vol sd' = avg_vol sd" by (simp add: avg_vol_def fa)
  show e: "equity_vol sd' = equity_vol sd" by (simp add: equity_vol_def fa)
  show v: "vol_ratio sd' = vol_ratio sd" by (simp add: vol_ratio_def fa a)
  show "initial_screen sd' = initial_screen sd" unfolding initial_screen_def g gr e v ..
qed

lemma passed_screen_agree:
  assumes "take 50 sd' = take 50 sd" and "50 \<le> length sd"
  shows "passed_screen (p\<lparr>history := h\<rparr>) w stock sd' = passed_screen p w stock sd"
  unfolding passed_screen_def frame_agree(2-4) [OF assms] metrics_agree(1-5) [OF assms]
  by simp

lemma get_stock_data_agree:
  assumes "take 50 (h stock i) = take 50 (history p stock i)" and "50 \<le> length (history p stock i)"
  shows "get_stock_data (p\<lparr>history := h\<rparr>) w stock i = get_stock_data p w stock i"
proof -
  have "get_stock_data_try (p\<lparr>history := h\<rparr>) w stock i = get_stock_data_try p w stock i"
    unfolding get_stock_data_try_def Let_def
    using frame_agree(1) [OF assms] assms(2)
    by (simp add: metrics_agree(6) [OF assms] passed_screen_agree [OF assms] cong: sum.case_cong bool.case_cong)
  then show ?thesis by (simp add: get_stock_data_def)
qed

text \<open>
  Claim C2, as the specification states it, has the last row of the frame be "today" for
  every window size. The code reads rows 49 and 48 whatever the length: in a frame of 51
  rows the gap is that of row 49 over row 48 (50 percent here), not that of the last row
  over the row before it, and row 49 is not the last row.
\<close>

theorem today_is_last_counterexample:
  "length (baseline @ [breakout 5000000, calm_lo]) = 51 \<and>
   gap (baseline @ [breakout 5000000, calm_lo]) = Fin 50 \<and>
   gapPercent (Open (last (baseline @ [breakout 5000000, calm_lo])))
     (High ((baseline @ [breakout 5000000, calm_lo]) !
              (length (baseline @ [breakout 5000000, calm_lo]) - 2))) = Fin (- 700 / 9) \<and>
   (baseline @ [breakout 5000000, calm_lo]) ! 49 \<noteq> last (baseline @ [breakout 5000000, calm_lo])"
  by (simp add: length_baseline baseline_gap baseline_row_49 gapPercent_def)
     (simp add: breakout_def calm_lo_def)

text \<open>
  Claim C2, amended: for every window size and every frame of at least 50 rows, the bar
  used as "today" for the gap, the green-day test and today's volume is row 49, and
  "yesterday" is row 48; they are the last and the second-to-last row when the frame has
  exactly 50 rows, and rows beyond the fiftieth are never read: the evaluation is the same
  for any two frames with the same first fifty rows.
\<close>

theorem today_is_row_49:
  "50 \<le> length (history p stock i) \<longrightarrow>
     gap (history p stock i) =
       gapPercent (Open (history p stock i ! 49)) (High (history p stock i ! 48)) \<and>
     green_initial_day (history p stock i) =
       (Open (history p stock i ! 49) < Close (history p stock i ! 49)) \<and>
     vol_ratio (history p stock i) =
       fdiv (Fin (real (Volume (history p stock i ! 49)))) (avg_vol (history p stock i)) \<and>
     (length (history p stock i) = 50 \<longrightarrow>
        history p stock i ! 49 = last (history p stock i) \<and>
        history p stock i ! 48 = history p stock i ! (length (history p stock i) - 2)) \<and>
     (\<forall>h. take 50 (h stock i) = take 50 (history p stock i) \<longrightarrow>
        get_stock_data (p\<lparr>history := h\<rparr>) w stock i = get_stock_data p w stock i)"
proof
  let ?sd = "history p stock i"
  assume len: "50 \<le> length ?sd"
  have l: "?sd ! 49 = last ?sd \<and> ?sd ! 48 = ?sd ! (length ?sd - 2)" if "length ?sd = 50"
  proof -
    from that have "?sd \<noteq> []" by auto
    then have "last ?sd = ?sd ! (length ?sd - 1)" by (rule last_conv_nth)
    with that show ?thesis by simp
  qed
  show "gap ?sd = gapPercent (Open (?sd ! 49)) (High (?sd ! 48)) \<and>
     green_initial_day ?sd = (Open (?sd ! 49) < Close (?sd ! 49)) \<and>
     vol_ratio ?sd = fdiv (Fin (real (Volume (?sd ! 49)))) (avg_vol ?sd) \<and>
     (length ?sd = 50 \<longrightarrow> ?sd ! 49 = last ?sd \<and> ?sd ! 48 = ?sd ! (length ?sd - 2)) \<and>
     (\<forall>h. take 50 (h stock i) = take 50 ?sd \<longrightarrow>
        get_stock_data (p\<lparr>history := h\<rparr>) w stock i = get_stock_data p w stock i)"
    using l get_stock_data_agree [OF _ len]
    by (simp add: gap_def gapPercent_def green_initial_day_def vol_ratio_def)
qed

theorem today_is_row_49_witness:
  "50 \<le> length (history (answering (baseline @ [breakout 5000000])) ''AAPL'' 51) \<and>
   gap (history (answering (baseline @ [breakout 5000000])) ''AAPL'' 51) = gapPercent 3 2 \<and>
   take 50 (baseline @ [breakout 5000000]) =
     take 50 (history (answering (baseline @ [breakout 5000000])) ''AAPL'' 51) \<and>
   get_stock_data
     (answering (baseline @ [breakout 5000000])\<lparr>history := \<lambda>stock i. baseline @ [breakout 5000000]\<rparr>)
     (watch initial) ''AAPL'' 51 =
   get_stock_data (answering (baseline @ [breakout 5000000])) (watch initial) ''AAPL'' 51 \<and>
   length (history (answering (baseline @ [breakout 5000000])) ''AAPL'' 50) = 50 \<and>
   history (answering (baseline @ [breakout 5000000])) ''AAPL'' 50 ! 49 =
     last (history (answering (baseline @ [breakout 5000000])) ''AAPL'' 50)"
proof -
  let ?f = "baseline @ [breakout 5000000]"
  let ?p = "answering ?f"
  have h51: "history ?p ''AAPL'' 51 = ?f @ [calm_lo]"
    by (simp add: answering_history)
  have h50: "history ?p ''AAPL'' 50 = ?f"
    by (rule answering_history_50)
  have len51: "50 \<le> length (history ?p ''AAPL'' 51)"
    unfolding h51 by (simp add: length_baseline)
  have len50: "length (history ?p ''AAPL'' 50) = 50"
    unfolding h50 by (simp add: length_baseline)
  have tk: "take 50 ?f = take 50 (history ?p ''AAPL'' 51)"
    unfolding h51 by (simp add: length_baseline)
  have rows: "Open (history ?p ''AAPL'' 51 ! 49) = 3" "High (history ?p ''AAPL'' 51 ! 48) = 2"
    unfolding h51 by (simp_all add: baseline_row_49 baseline_row_48 breakout_def calm_lo_def)
  note t51 = today_is_row_49 [of ?p "''AAPL''" 51 "watch initial", THEN mp, OF len51]
  have a: "gap (history ?p ''AAPL'' 51) = gapPercent 3 2"
    using t51 [THEN conjunct1] unfolding rows .
  have b: "get_stock_data (?p\<lparr>history := \<lambda>stock i. ?f\<rparr>) (watch initial) ''AAPL'' 51 =
           get_stock_data ?p (watch initial) ''AAPL'' 51"
    using t51 [THEN conjunct2, THEN conjunct2, THEN conjunct2, THEN conjunct2,
               THEN spec, of "\<lambda>stock i. ?f", THEN mp] tk by simp
  have len50': "50 \<le> length (history ?p ''AAPL'' 50)" using len50 by simp
  note t50 = today_is_row_49 [of ?p "''AAPL''" 50 "watch initial", THEN mp, OF len50']
  have c: "history ?p ''AAPL'' 50 ! 49 = last (history ?p ''AAPL'' 50)"
    using t50 [THEN conjunct2, THEN conjunct2, THEN conjunct2, THEN conjunct1, THEN mp, OF len50]
    by (rule conjunct1)
  show ?thesis
    by (intro conjI len51 a tk b len50 c)
qed

section \<open>The sample runs\<close>

lemma round_half_even_ge_floor: "\<lfloor>x\<rfloor> \<le> round_half_even x"
  by (simp add: round_half_even_def Let_def)

lemma ln_2_ge_quarter: "1 / 4 \<le> ln (2::real)"
proof -
  have "(1/2::real) - (1/2)\<^sup>2 \<le> ln (1 + 1/2)"
    by (rule ln_one_plus_pos_lower_bound) simp_all
  then have "1 / 4 \<le> ln (3 / 2 :: real)" by (simp add: power2_eq_square)
  also have "\<dots> \<le> ln 2" by simp
  finally show ?thesis .
qed

lemma sqrt_252_ge: "15 \<le> sqrt 252"
  by (rule real_le_rsqrt) simp

lemma baseline_log_returns:
  "log_returns (map Close baseline) =
   [Fin (ln 2), Fin (- ln 2), Fin (ln 2), Fin (- ln 2), Fin (ln 2), Fin (- ln 2), Fin (ln 2), Fin (- ln 2),
    Fin (ln 2), Fin (- ln 2), Fin (ln 2), Fin (- ln 2), Fin (ln 2), Fin (- ln 2), Fin (ln 2), Fin (- ln 2),
    Fin (ln 2), Fin (- ln 2), Fin (ln 2), Fin (- ln 2), Fin (ln 2), Fin (- ln 2), Fin (ln 2), Fin (- ln 2),
    Fin (ln 2), Fin (- ln 2), Fin (ln 2), Fin (- ln 2), Fin (ln 2), Fin (- ln 2), Fin (ln 2), Fin (- ln 2),
    Fin (ln 2), Fin (- ln 2), Fin (ln 2), Fin (- ln 2), Fin (ln 2), Fin (- ln 2), Fin (ln 2), Fin (- ln 2),
    Fin (ln 2), Fin (- ln 2), Fin (ln 2), Fin (- ln 2), Fin (ln 2), Fin (- ln 2), Fin (ln 2), Fin (- ln 2)]"
  by (simp add: log_returns_def baseline_def calm_lo_def calm_hi_def ln_div)

lemma baseline_mean_return: "np_mean (log_returns (map Close baseline)) = Fin 0"
  unfolding baseline_log_returns by (simp add: np_mean_def)

lemma baseline_variance:
  "np_mean (map (\<lambda>lr. fmul (fsub lr (Fin 0)) (fsub lr (Fin 0))) (log_returns (map Close baseline)))
   = Fin (ln 2 * ln 2)"
  unfolding baseline_log_returns by (simp add: np_mean_def fsub_def)

lemma baseline_volatility:
  "calculate_volatility (map Close baseline) stock
   = PyFloat (Fin (of_int (round_half_even (ln 2 * sqrt 252 * 100 * 100)) / 100))"
  by (simp add: calculate_volatility_def baseline_mean_return baseline_variance del: real_sqrt_mult)

lemma baseline_volatility_hot:
  "vol_gt_100 (calculate_volatility (map Close baseline) stock) = Inr True"
proof -
  have "1 / 4 * 15 \<le> ln 2 * sqrt 252"
    by (rule mult_mono [OF ln_2_ge_quarter sqrt_252_ge]) simp_all
  then have "37500 \<le> ln 2 * sqrt 252 * 100 * 100" by simp
  then have "37500 \<le> \<lfloor>ln 2 * sqrt 252 * 100 * 100\<rfloor>" by (simp add: le_floor_iff)
  then have "37500 \<le> round_half_even (ln 2 * sqrt 252 * 100 * 100)"
    using round_half_even_ge_floor [of "ln 2 * sqrt 252 * 100 * 100"] by linarith
  then have "(100::real) < of_int (round_half_even (ln 2 * sqrt 252 * 100 * 100)) / 100"
    by simp
  then show ?thesis
    unfolding baseline_volatility by (simp add: fgt_def)
qed

lemma session_evidence: "get_evidence_of_selling (Some session) stock = ''No''"
  by (simp add: get_evidence_of_selling_def session_def volume_max_def)

lemma answering_fields:
  "market_cap_item (answering frame) stock = Some ''2.5T''"
  "short_float_item (answering frame) stock = Some ''0.7%''"
  "profile_spans (answering frame) stock = Some (''Consumer Electronics'', ''Technology'')"
  "quote_price (answering frame) stock = Some (22 / 5)"
  "minute_download (answering frame) stock date = Some session"
  by (simp_all add: answering_def)

lemma breakout_row: 
  "Date ((baseline @ breakout v # bs) ! 49) = 7"
  "High ((baseline @ breakout v # bs) ! 49) = 9 / 2"
  "Low ((baseline @ breakout v # bs) ! 49) = 29 / 10"
  by (simp_all add: baseline_row_49 breakout_def)

lemma breakout_initial_screen:
  "initial_screen (baseline @ breakout 5000000 # bs) = Inr True"
proof -
  have "py_round (gap (baseline @ breakout 5000000 # bs)) = Inr 50"
    using round_half_even_int [of 50] by (simp add: baseline_gap)
  moreover have "py_round (vol_ratio (baseline @ breakout 5000000 # bs)) = Inr 5"
    using round_half_even_int [of 5] by (simp add: baseline_vol_ratio)
  moreover have "fge (equity_vol (baseline @ breakout 5000000 # bs)) (Fin 250000)"
    by (simp add: baseline_equity_vol fge_def)
  ultimately show ?thesis
    by (simp add: initial_screen_def baseline_green)
qed

lemma breakout_passed_screen:
  "passed_screen (answering frame) w ''AAPL'' (baseline @ breakout 5000000 # bs) =
     (None,
      w\<lparr>stocks_in_play := stocks_in_play w + 1,
        sizzlers := (if ''AAPL'' \<in> set (sizzlers w) then sizzlers w else sizzlers w @ [''AAPL''])\<rparr>,
      passing_actions)"
proof -
  let ?sd = "baseline @ breakout 5000000 # bs"
  have m: "closest_number (22 / 5) (9 / 2) (29 / 10) ''AAPL''"
    by (simp add: closest_number_def)
  have g: "py_round2 (gap ?sd) = Fin 50"
    using round_half_even_int [of 5000] by (simp add: baseline_gap)
  have v: "py_round2 (vol_ratio ?sd) = Fin 5"
    using round_half_even_int [of 500] by (simp add: baseline_vol_ratio)
  have e: "py_round (equity_vol ?sd) = Inr (round_half_even (73000000 / 49))"
    by (simp add: baseline_equity_vol)
  have s: "get_sector (Some (''Consumer Electronics'', ''Technology'')) = ''Technology''"
    by (simp add: get_sector_def)
  show ?thesis
    unfolding passed_screen_def Let_def answering_fields breakout_row baseline_take_49
      session_evidence g v e s baseline_volatility_hot get_current_price_def get_market_cap_def
      get_short_float_def passing_actions_def hot_row_def
    using m by simp
qed

lemma breakout_get_stock_data:
  "get_stock_data (answering (baseline @ [breakout 5000000])) w ''AAPL'' i =
     (None,
      w\<lparr>stocks_in_play := stocks_in_play w + 1,
        sizzlers := (if ''AAPL'' \<in> set (sizzlers w) then sizzlers w else sizzlers w @ [''AAPL''])\<rparr>,
      passing_actions)"
proof -
  have h: "history (answering (baseline @ [breakout 5000000])) ''AAPL'' i =
           baseline @ breakout 5000000 # replicate (i - 50) calm_lo"
    by (simp add: answering_history)
  have "get_stock_data_try (answering (baseline @ [breakout 5000000])) w ''AAPL'' i =
     passed_screen (answering (baseline @ [breakout 5000000])) w ''AAPL''
       (baseline @ breakout 5000000 # replicate (i - 50) calm_lo)"
    unfolding get_stock_data_try_def Let_def h
    by (simp add: breakout_initial_screen length_baseline)
  then show ?thesis
    by (simp add: get_stock_data_def breakout_passed_screen)
qed

lemma one_batch:
  assumes r: "reachable (answering (baseline @ [breakout 5000000])) [''AAPL''] s"
    and pc: "pc s = Iteration i" and lt: "i < 60" and ts: "tasks s = []"
  shows "reachable (answering (baseline @ [breakout 5000000])) [''AAPL'']
           (s\<lparr>pc := Iteration (Suc i),
              watch := (watch s)\<lparr>stocks_in_play := stocks_in_play (watch s) + 1,
                 sizzlers := (if ''AAPL'' \<in> set (sizzlers (watch s)) then sizzlers (watch s)
                              else sizzlers (watch s) @ [''AAPL''])\<rparr>,
              events := events s @ batch_events i\<rparr>)"
proof -
  let ?p = "answering (baseline @ [breakout 5000000])"
  let ?w' = "(watch s)\<lparr>stocks_in_play := stocks_in_play (watch s) + 1,
                 sizzlers := (if ''AAPL'' \<in> set (sizzlers (watch s)) then sizzlers (watch s)
                              else sizzlers (watch s) @ [''AAPL''])\<rparr>"
  let ?s1 = "s\<lparr>pc := Gathering i, tasks := [(''AAPL'', i, Created)],
               events := events s @ [Print_separator i]\<rparr>"
  let ?s2 = "s\<lparr>pc := Gathering i, tasks := [(''AAPL'', i, Fetching)],
               events := events s @ [Print_separator i, Task ''AAPL'' i Call_history]\<rparr>"
  let ?s3 = "s\<lparr>pc := Gathering i, tasks := [(''AAPL'', i, Finished None)], watch := ?w',
               events := events s @ batch_events i\<rparr>"
  have r1: "reachable ?p [''AAPL''] ?s1"
    using reachable.after_step [OF r step.spawn [OF pc lt]] ts by simp
  have "step ?p [''AAPL''] ?s1
          (?s1\<lparr>tasks := (tasks ?s1)[0 := (''AAPL'', i, Fetching)],
               events := events ?s1 @ [Task ''AAPL'' i Call_history]\<rparr>)"
    by (rule step.start [where i = i]) simp_all
  then have "step ?p [''AAPL''] ?s1 ?s2" by simp
  with r1 have r2: "reachable ?p [''AAPL''] ?s2" by (rule reachable.after_step)
  have "step ?p [''AAPL''] ?s2
          (?s2\<lparr>tasks := (tasks ?s2)[0 := (''AAPL'', i, Finished None)], watch := ?w',
               events := events ?s2 @ map (Task ''AAPL'' i) passing_actions @ [Task ''AAPL'' i Resolve]\<rparr>)"
    by (rule step.resume [where i = i]) (simp_all add: breakout_get_stock_data)
  then have "step ?p [''AAPL''] ?s2 ?s3" by (simp add: batch_events_def)
  with r2 have r3: "reachable ?p [''AAPL''] ?s3" by (rule reachable.after_step)
  have "step ?p [''AAPL''] ?s3 (?s3\<lparr>pc := Iteration (Suc i), tasks := []\<rparr>)"
    by (rule step.gathered [where i = i]) simp_all
  with r3 have "reachable ?p [''AAPL''] (?s3\<lparr>pc := Iteration (Suc i), tasks := []\<rparr>)"
    by (rule reachable.after_step)
  moreover have "?s3\<lparr>pc := Iteration (Suc i), tasks := []\<rparr> =
     s\<lparr>pc := Iteration (Suc i), watch := ?w', events := events s @ batch_events i\<rparr>"
    using ts by simp
  ultimately show ?thesis by simp
qed

lemma two_batches_reachable:
  "reachable (answering (baseline @ [breakout 5000000])) [''AAPL''] two_batches"
proof -
  let ?p = "answering (baseline @ [breakout 5000000])"
  have r0: "reachable ?p [''AAPL''] initial" by (rule reachable.start_of_run)
  have "reachable ?p [''AAPL'']
          \<lparr>pc = Iteration 51, tasks = [], watch = \<lparr>stocks_in_play = 1, sizzlers = [''AAPL'']\<rparr>,
           events = Print_header # batch_events 50\<rparr>"
    using one_batch [OF r0, of 50] by (simp add: initial_def)
  from one_batch [OF this, of 51] show ?thesis
    by (simp add: two_batches_def numeral_2_eq_2)
qed

lemma length_zero_high: "length zero_high = 50"
  by (simp add: zero_high_def length_baseline)

lemma zero_high_rows:
  "zero_high ! 48 = calm_lo\<lparr>High := 0\<rparr>" "zero_high ! 49 = breakout 5000000"
  by (simp_all add: zero_high_def nth_append length_baseline)

lemma zero_high_gap: "gap zero_high = PInf"
  by (simp add: gap_def zero_high_rows breakout_def inf_times_def)

lemma zero_high_screen: "initial_screen zero_high = Inl OverflowError"
  by (simp add: initial_screen_def green_initial_day_def zero_high_rows zero_high_gap)
     (simp add: breakout_def)

lemma zero_high_get_stock_data:
  "get_stock_data (answering zero_high) w ''AAPL'' 50 = (Some OverflowError, w, [])"
  by (simp add: get_stock_data_def get_stock_data_try_def answering_history_50 length_zero_high
        zero_high_screen)

lemma aborted_reachable: "reachable (answering zero_high) [''AAPL''] aborted"
proof -
  let ?p = "answering zero_high"
  let ?s1 = "initial\<lparr>pc := Gathering 50, tasks := [(''AAPL'', 50, Created)],
               events := [Print_header, Print_separator 50]\<rparr>"
  let ?s2 = "initial\<lparr>pc := Gathering 50, tasks := [(''AAPL'', 50, Fetching)],
               events := [Print_header, Print_separator 50, Task ''AAPL'' 50 Call_history]\<rparr>"
  let ?s3 = "initial\<lparr>pc := Gathering 50, tasks := [(''AAPL'', 50, Finished (Some OverflowError))],
               events := [Print_header, Print_separator 50, Task ''AAPL'' 50 Call_history,
                          Task ''AAPL'' 50 Resolve]\<rparr>"
  have "step ?p [''AAPL''] initial
          (initial\<lparr>pc := Gathering 50,
             tasks := tasks initial @ map (\<lambda>stock. (stock, 50, Created)) [''AAPL''],
             events := events initial @ [Print_separator 50]\<rparr>)"
    by (rule step.spawn) (simp_all add: initial_def)
  then have "step ?p [''AAPL''] initial ?s1" by (simp add: initial_def)
  with reachable.start_of_run have r1: "reachable ?p [''AAPL''] ?s1"
    by (rule reachable.after_step)
  have "step ?p [''AAPL''] ?s1
          (?s1\<lparr>tasks := (tasks ?s1)[0 := (''AAPL'', 50, Fetching)],
               events := events ?s1 @ [Task ''AAPL'' 50 Call_history]\<rparr>)"
    by (rule step.start [where i = 50]) simp_all
  then have "step ?p [''AAPL''] ?s1 ?s2" by simp
  with r1 have r2: "reachable ?p [''AAPL''] ?s2" by (rule reachable.after_step)
  have "step ?p [''AAPL''] ?s2
          (?s2\<lparr>tasks := (tasks ?s2)[0 := (''AAPL'', 50, Finished (Some OverflowError))],
               watch := watch ?s2,
               events := events ?s2 @ map (Task ''AAPL'' 50) [] @ [Task ''AAPL'' 50 Resolve]\<rparr>)"
    by (rule step.resume [where i = 50]) (simp_all add: zero_high_get_stock_data)
  then have "step ?p [''AAPL''] ?s2 ?s3" by simp
  with r2 have r3: "reachable ?p [''AAPL''] ?s3" by (rule reachable.after_step)
  have "step ?p [''AAPL''] ?s3 (?s3\<lparr>pc := Raised OverflowError\<rparr>)"
    by (rule step.failed [where i = 50 and stock = "''AAPL''" and j = 50]) simp_all
  with r3 have "reachable ?p [''AAPL''] (?s3\<lparr>pc := Raised OverflowError\<rparr>)"
    by (rule reachable.after_step)
  then show ?thesis by (simp add: aborted_def initial_def)
qed

lemma aborted_final: "\<not> step p stocks aborted s'"
  by (auto simp: aborted_def elim: step.cases)

section \<open>The sizzlers\<close>

lemma passed_screen_sizzlers:
  assumes "passed_screen p w stock sd = (r, w', acts)"
  shows "(distinct (sizzlers w) \<longrightarrow> distinct (sizzlers w')) \<and>
         set (sizzlers w) \<subseteq> set (sizzlers w') \<and>
         (\<forall>row. Print_row row \<in> set acts \<and> vol_gt_100 (row_vol row) = Inr True
                \<longrightarrow> stock \<in> set (sizzlers w'))"
  using assms
  by (auto simp: passed_screen_def Let_def split: if_splits sum.splits)

lemma get_stock_data_try_sizzlers:
  assumes "get_stock_data_try p w stock i = (r, w', acts)"
  shows "(distinct (sizzlers w) \<longrightarrow> distinct (sizzlers w')) \<and>
         set (sizzlers w) \<subseteq> set (sizzlers w') \<and>
         (\<forall>row. Print_row row \<in> set acts \<and> vol_gt_100 (row_vol row) = Inr True
                \<longrightarrow> stock \<in> set (sizzlers w'))"
proof (cases "50 \<le> length (history p stock i) \<and> initial_screen (history p stock i) = Inr True")
  case True
  with assms have "passed_screen p w stock (history p stock i) = (r, w', acts)"
    by (simp add: get_stock_data_try_def)
  then show ?thesis by (rule passed_screen_sizzlers)
next
  case False
  with assms have "w' = w \<and> acts = []"
    by (auto simp: get_stock_data_try_def Let_def split: if_splits sum.splits bool.splits)
  then show ?thesis by simp
qed

lemma get_stock_data_sizzlers:
  assumes "get_stock_data p w stock i = (r, w', acts)"
  shows "(distinct (sizzlers w) \<longrightarrow> distinct (sizzlers w')) \<and>
         set (sizzlers w) \<subseteq> set (sizzlers w') \<and>
         (\<forall>row. Print_row row \<in> set acts \<and> vol_gt_100 (row_vol row) = Inr True
                \<longrightarrow> stock \<in> set (sizzlers w'))"
proof -
  obtain r0 where "get_stock_data_try p w stock i = (r0, w', acts)"
    using assms
    by (cases "get_stock_data_try p w stock i")
       (auto simp: get_stock_data_def split: option.splits exn.splits)
  then show ?thesis by (rule get_stock_data_try_sizzlers)
qed

lemma step_sizzlers_ok:
  assumes "step p stocks s s'" and "sizzlers_ok s"
  shows "sizzlers_ok s'"
  using assms
proof (cases rule: step.cases)
  case (resume i k stock j r w' acts)
  note g = get_stock_data_sizzlers [OF resume(5)]
  from g assms(2) have d: "distinct (sizzlers w')" by (simp add: sizzlers_ok_def)
  have m: "st \<in> set (sizzlers w')"
    if "Task st j' (Print_row row) \<in> set (events s')" "vol_gt_100 (row_vol row) = Inr True"
    for st j' row
  proof -
    from that(1) resume(1)
    consider "Task st j' (Print_row row) \<in> set (events s)"
      | "st = stock" "Print_row row \<in> set acts"
      by auto
    then show ?thesis
    proof cases
      case 1
      with assms(2) that(2) have "st \<in> set (sizzlers (watch s))"
        unfolding sizzlers_ok_def by blast
      with g show ?thesis by blast
    next
      case 2
      with g that(2) show ?thesis by blast
    qed
  qed
  from d m show ?thesis
    unfolding sizzlers_ok_def using resume(1) by auto
qed (auto simp: sizzlers_ok_def)

lemma reachable_sizzlers_ok: "reachable p stocks s \<Longrightarrow> sizzlers_ok s"
proof (induction rule: reachable.induct)
  case start_of_run
  show ?case by (simp add: sizzlers_ok_def initial_def)
next
  case (after_step s s')
  then show ?case by (blast intro: step_sizzlers_ok)
qed

lemma count_list_distinct_member:
  "distinct xs \<Longrightarrow> x \<in> set xs \<Longrightarrow> count_list xs x = 1"
  by (induction xs) (auto simp: count_list_0_iff)

text \<open>
  Claim C8: at every point of every run the sizzlers hold no symbol twice, and a symbol for
  which a row with a volatility above 100 was printed, in whatever window and however
  often, is in the sizzlers exactly once.
\<close>

theorem sizzlers_once:
  "reachable p stocks s \<longrightarrow>
     distinct (sizzlers (watch s)) \<and>
     (\<forall>stock j row. Task stock j (Print_row row) \<in> set (events s) \<and>
                     vol_gt_100 (row_vol row) = Inr True
        \<longrightarrow> count_list (sizzlers (watch s)) stock = 1)"
proof
  assume "reachable p stocks s"
  then have ok: "sizzlers_ok s" by (rule reachable_sizzlers_ok)
  then have d: "distinct (sizzlers (watch s))" by (simp add: sizzlers_ok_def)
  moreover have "count_list (sizzlers (watch s)) stock = 1"
    if "Task stock j (Print_row row) \<in> set (events s) \<and> vol_gt_100 (row_vol row) = Inr True"
    for stock j row
  proof -
    from ok that have "stock \<in> set (sizzlers (watch s))"
      unfolding sizzlers_ok_def by blast
    with d show ?thesis by (rule count_list_distinct_member)
  qed
  ultimately show "distinct (sizzlers (watch s)) \<and>
     (\<forall>stock j row. Task stock j (Print_row row) \<in> set (events s) \<and>
                     vol_gt_100 (row_vol row) = Inr True
        \<longrightarrow> count_list (sizzlers (watch s)) stock = 1)"
    by blast
qed

theorem sizzlers_once_witness:
  "reachable (answering (baseline @ [breakout 5000000])) [''AAPL''] two_batches \<and>
   Task ''AAPL'' 50 (Print_row hot_row) \<in> set (events two_batches) \<and>
   Task ''AAPL'' 51 (Print_row hot_row) \<in> set (events two_batches) \<and>
   vol_gt_100 (row_vol hot_row) = Inr True \<and>
   stocks_in_play (watch two_batches) = 2 \<and>
   distinct (sizzlers (watch two_batches)) \<and>
   count_list (sizzlers (watch two_batches)) ''AAPL'' = 1"
proof -
  note t = sizzlers_once [of "answering (baseline @ [breakout 5000000])" "[''AAPL'']" two_batches,
      THEN mp, OF two_batches_reachable]
  have e50: "Task ''AAPL'' 50 (Print_row hot_row) \<in> set (events two_batches)"
    and e51: "Task ''AAPL'' 51 (Print_row hot_row) \<in> set (events two_batches)"
    by (simp_all add: two_batches_def batch_events_def passing_actions_def)
  have hot: "vol_gt_100 (row_vol hot_row) = Inr True"
    by (simp add: hot_row_def baseline_volatility_hot)
  have n: "stocks_in_play (watch two_batches) = 2" by (simp add: two_batches_def)
  from t have d: "distinct (sizzlers (watch two_batches))" by (rule conjunct1)
  from t [THEN conjunct2, THEN spec, THEN spec, THEN spec, THEN mp, OF conjI, OF e51 hot]
  have c: "count_list (sizzlers (watch two_batches)) ''AAPL'' = 1" .
  show ?thesis by (intro conjI two_batches_reachable e50 e51 hot n d c)
qed

section \<open>The order of the batches\<close>

lemma windows_append: "windows (xs @ ys) = windows xs @ windows ys"
  by (induction xs rule: windows.induct) simp_all

lemma set_windows: "j \<in> set (windows es) \<longleftrightarrow> (\<exists>stock a. Task stock j a \<in> set es)"
  by (induction es rule: windows.induct) auto

lemma boundedD: "bounded i es \<Longrightarrow> Task stock j a \<in> set es \<Longrightarrow> 50 \<le> j \<and> j \<le> i"
  unfolding bounded_def by blast

lemma belowD: "below i es \<Longrightarrow> Task stock j a \<in> set es \<Longrightarrow> 50 \<le> j \<and> j < i"
  unfolding below_def by blast

lemma below_bounded: "below i es \<Longrightarrow> bounded i es"
  unfolding below_def bounded_def by (meson less_imp_le)

lemma bounded_below: "bounded i es \<Longrightarrow> below (Suc i) es"
  unfolding below_def bounded_def by (meson le_imp_less_Suc)

lemma bounded_snoc_other: "bounded i es \<Longrightarrow> windows new = [] \<Longrightarrow> bounded i (es @ new)"
  unfolding bounded_def by (metis Un_iff empty_iff empty_set set_append set_windows)

lemma windows_map_Task: "windows (map (Task stock j) acts) = replicate (length acts) j"
  by (induction acts) simp_all

lemma sorted_windows_snoc:
  assumes "sorted (windows es)" and "bounded i es" and "set (windows new) \<subseteq> {i}"
  shows "sorted (windows (es @ new))"
proof -
  have "replicate (length (windows new)) i = windows new"
    using assms(3) by (intro replicate_length_same) auto
  then have "sorted (windows new)"
    by (metis sorted_replicate)
  moreover have "\<forall>x\<in>set (windows es). \<forall>y\<in>set (windows new). x \<le> y"
  proof (intro ballI)
    fix x y assume "x \<in> set (windows es)" and "y \<in> set (windows new)"
    from \<open>y \<in> set (windows new)\<close> assms(3) have "y = i" by blast
    moreover from \<open>x \<in> set (windows es)\<close> have "\<exists>stock a. Task stock x a \<in> set es"
      by (simp only: set_windows)
    ultimately show "x \<le> y" using assms(2) by (blast dest: boundedD)
  qed
  ultimately show ?thesis using assms(1) by (simp add: windows_append sorted_append)
qed

lemma bounded_append: "bounded i es \<Longrightarrow> bounded i new \<Longrightarrow> bounded i (es @ new)"
  unfolding bounded_def by (metis Un_iff set_append)

lemma bounded_Task: "50 \<le> i \<Longrightarrow> bounded i (map (Task stock i) acts @ [Task stock i a])"
  unfolding bounded_def by auto

lemma settled_append: "settled stocks i es \<Longrightarrow> settled stocks i (es @ new)"
  by (auto simp: settled_def)

lemma step_batches_ok:
  assumes "step p stocks s s'" and "batches_ok stocks s"
  shows "batches_ok stocks s'"
  using assms
proof (cases rule: step.cases)
  case (spawn i)
  from assms(2) spawn(2) have inv: "sorted (windows (events s))" "50 \<le> i" "tasks s = []"
      "settled stocks i (events s)" "below i (events s)"
    by (simp_all add: batches_ok_def)
  have "bounded i (events s')"
    unfolding spawn(1) using bounded_snoc_other [OF below_bounded [OF inv(5)], of "[Print_separator i]"]
    by simp
  moreover have "settled stocks i (events s')"
    unfolding spawn(1) using settled_append [OF inv(4)] by simp
  moreover have "sorted (windows (events s'))"
    unfolding spawn(1) using inv(1) by (simp add: windows_append)
  moreover have "map fst (tasks s') = stocks"
    unfolding spawn(1) using inv(3) by (simp add: comp_def)
  moreover have "\<forall>t\<in>set (tasks s'). fst (snd t) = i \<and>
             (\<forall>r. snd (snd t) = Finished r \<longrightarrow> Task (fst t) i Resolve \<in> set (events s'))"
    unfolding spawn(1) using inv(3) by auto
  moreover have "pc s' = Gathering i" unfolding spawn(1) by simp
  ultimately show ?thesis
    unfolding batches_ok_def using inv(2) by simp
next
  case (start i k stock j)
  from assms(2) start(2) have inv: "sorted (windows (events s))" "50 \<le> i" "bounded i (events s)"
      "settled stocks i (events s)" "map fst (tasks s) = stocks"
      "\<forall>t\<in>set (tasks s). fst (snd t) = i \<and>
             (\<forall>r. snd (snd t) = Finished r \<longrightarrow> Task (fst t) i Resolve \<in> set (events s))"
    by (simp_all add: batches_ok_def)
  from start(3,4) have "(stock, j, Created) \<in> set (tasks s)" by (metis nth_mem)
  with inv(6) have j: "j = i" by auto
  have so: "sorted (windows (events s'))"
    unfolding start(1) using sorted_windows_snoc [OF inv(1,3), of "[Task stock j Call_history]"] j
    by simp
  have bo: "bounded i (events s')"
    unfolding start(1) using bounded_append [OF inv(3) bounded_Task [OF inv(2), of stock "[]" Call_history]] j
    by simp
  have se: "settled stocks i (events s')"
    unfolding start(1) using inv(4) by (simp add: settled_append)
  have mp: "map fst (tasks s') = stocks"
    unfolding start(1) using inv(5) start(3,4) by (simp add: map_update) (metis fst_conv list_update_id map_update)
  have ts: "\<forall>t\<in>set (tasks s'). fst (snd t) = i \<and>
             (\<forall>r. snd (snd t) = Finished r \<longrightarrow> Task (fst t) i Resolve \<in> set (events s'))"
  proof
    fix t assume "t \<in> set (tasks s')"
    then have "t \<in> set ((tasks s)[k := (stock, j, Fetching)])" unfolding start(1) by simp
    then have "t = (stock, j, Fetching) \<or> t \<in> set (tasks s)"
      using set_update_subset_insert by fastforce
    then show "fst (snd t) = i \<and>
             (\<forall>r. snd (snd t) = Finished r \<longrightarrow> Task (fst t) i Resolve \<in> set (events s'))"
      using inv(6) j unfolding start(1) by auto
  qed
  show ?thesis
    unfolding batches_ok_def using so bo se mp ts inv(2) start(1,2) by simp
next
  case (resume i k stock j r w' acts)
  from assms(2) resume(2) have inv: "sorted (windows (events s))" "50 \<le> i" "bounded i (events s)"
      "settled stocks i (events s)" "map fst (tasks s) = stocks"
      "\<forall>t\<in>set (tasks s). fst (snd t) = i \<and>
             (\<forall>r. snd (snd t) = Finished r \<longrightarrow> Task (fst t) i Resolve \<in> set (events s))"
    by (simp_all add: batches_ok_def)
  from resume(3,4) have "(stock, j, Fetching) \<in> set (tasks s)" by (metis nth_mem)
  with inv(6) have j: "j = i" by auto
  let ?new = "map (Task stock j) acts @ [Task stock j Resolve]"
  have ev: "events s' = events s @ ?new" unfolding resume(1) by simp
  have wn: "set (windows ?new) \<subseteq> {i}"
    using j by (auto simp: windows_append windows_map_Task)
  have so: "sorted (windows (events s'))"
    unfolding ev using inv(1,3) wn by (rule sorted_windows_snoc)
  have bo: "bounded i (events s')"
    unfolding ev using bounded_append [OF inv(3) bounded_Task [OF inv(2)]] j by simp
  have se: "settled stocks i (events s')"
    unfolding ev using inv(4) by (rule settled_append)
  have mp: "map fst (tasks s') = stocks"
    unfolding resume(1) using inv(5) resume(3,4) by (simp add: map_update) (metis fst_conv list_update_id map_update)
  have ts: "\<forall>t\<in>set (tasks s'). fst (snd t) = i \<and>
             (\<forall>r. snd (snd t) = Finished r \<longrightarrow> Task (fst t) i Resolve \<in> set (events s'))"
  proof
    fix t assume "t \<in> set (tasks s')"
    then have "t \<in> set ((tasks s)[k := (stock, j, Finished r)])" unfolding resume(1) by simp
    then have "t = (stock, j, Finished r) \<or> t \<in> set (tasks s)"
      using set_update_subset_insert by fastforce
    then show "fst (snd t) = i \<and>
             (\<forall>r. snd (snd t) = Finished r \<longrightarrow> Task (fst t) i Resolve \<in> set (events s'))"
      using inv(6) j unfolding ev by auto
  qed
  have pc': "pc s' = Gathering i" unfolding resume(1) using resume(2) by simp
  show ?thesis
    unfolding batches_ok_def using so bo se mp ts inv(2) pc' by simp
next
  case (gathered i)
  from assms(2) gathered(2) have inv: "sorted (windows (events s))" "50 \<le> i" "bounded i (events s)"
      "settled stocks i (events s)" "map fst (tasks s) = stocks"
      "\<forall>t\<in>set (tasks s). fst (snd t) = i \<and>
             (\<forall>r. snd (snd t) = Finished r \<longrightarrow> Task (fst t) i Resolve \<in> set (events s))"
    by (simp_all add: batches_ok_def)
  have "Task stock i Resolve \<in> set (events s)" if "stock \<in> set stocks" for stock
  proof -
    from that inv(5) obtain t where t: "t \<in> set (tasks s)" "fst t = stock" by force
    with gathered(3) have "snd (snd t) = Finished None" by blast
    with inv(6) t show ?thesis by blast
  qed
  with inv(4) have "settled stocks (Suc i) (events s)"
    unfolding settled_def by (metis less_Suc_eq)
  moreover have "below (Suc i) (events s)"
    using inv(3) by (rule bounded_below)
  ultimately show ?thesis
    unfolding batches_ok_def using inv(1,2) gathered(1) by simp
next
  case (failed i stock j ex)
  with assms(2) show ?thesis
    by (auto simp: batches_ok_def)
next
  case summary
  with assms(2) have a: "sorted (windows (events s))" "settled stocks 60 (events s)"
    "below 60 (events s)"
    by (simp_all add: batches_ok_def)
  have "bounded 60 (events s')"
    unfolding summary(1)
    using bounded_snoc_other [OF below_bounded [OF a(3)],
            of "[Print_summary (stocks_in_play (watch s)) (length (sizzlers (watch s)))]"]
    by simp
  moreover have "settled stocks 60 (events s')" using a(2) unfolding summary(1) by (simp add: settled_def)
  moreover have "sorted (windows (events s'))" using a(1) unfolding summary(1) by (simp add: windows_append)
  ultimately show ?thesis
    unfolding batches_ok_def summary(1) by auto
qed

lemma reachable_batches_ok: "reachable p stocks s \<Longrightarrow> batches_ok stocks s"
proof (induction rule: reachable.induct)
  case start_of_run
  show ?case by (simp add: batches_ok_def initial_def settled_def below_def)
next
  case (after_step s s')
  then show ?case by (blast intro: step_batches_ok)
qed

lemma batches_ok_settled:
  assumes "batches_ok stocks s"
  shows "\<exists>i. bounded i (events s) \<and> settled stocks i (events s)"
proof (cases "pc s")
  case (Iteration i)
  with assms have "bounded i (events s) \<and> settled stocks i (events s)"
    by (simp add: batches_ok_def below_bounded)
  then show ?thesis ..
next
  case (Gathering i)
  with assms have "bounded i (events s) \<and> settled stocks i (events s)"
    by (simp add: batches_ok_def)
  then show ?thesis ..
next
  case Returned
  with assms show ?thesis by (simp add: batches_ok_def)
next
  case (Raised ex)
  with assms show ?thesis by (simp add: batches_ok_def)
qed

text \<open>
  Claim C9: at every point of every run, when the trace holds an event of a task of window
  \<open>n + 1\<close> (for instance its start, the call of \<^verbatim>\<open>ticker.history\<close>), every symbol's task of
  window \<open>n\<close> has resolved before that event, and no event of a task of window \<open>n\<close> (a
  collector call, a printed row, its end) comes after it.
\<close>

theorem batches_not_pipelined:
  "reachable p stocks s \<and> events s = xs @ Task stock' (Suc n) a # ys \<and> 50 \<le> n \<longrightarrow>
     (\<forall>stock\<in>set stocks. Task stock n Resolve \<in> set xs) \<and>
     (\<forall>stock a'. Task stock n a' \<notin> set ys)"
proof (intro impI, elim conjE)
  assume r: "reachable p stocks s" and ev: "events s = xs @ Task stock' (Suc n) a # ys" and n: "50 \<le> n"
  from r have ok: "batches_ok stocks s" by (rule reachable_batches_ok)
  then have "sorted (windows xs @ Suc n # windows ys)"
    by (simp add: batches_ok_def ev windows_append)
  then have after: "\<forall>j\<in>set (windows ys). Suc n \<le> j"
    by (simp add: sorted_append)
  have no: "Task stock n a' \<notin> set ys" for stock a'
  proof
    assume "Task stock n a' \<in> set ys"
    then have "n \<in> set (windows ys)" by (auto simp: set_windows)
    with after show False by auto
  qed
  from batches_ok_settled [OF ok] obtain i where
    i: "bounded i (events s)" "settled stocks i (events s)" by blast
  have "Task stock' (Suc n) a \<in> set (events s)" unfolding ev by simp
  with i(1) have "Suc n \<le> i" by (blast dest: boundedD)
  have "Task stock n Resolve \<in> set xs" if "stock \<in> set stocks" for stock
  proof -
    from i(2) n \<open>Suc n \<le> i\<close> that have "Task stock n Resolve \<in> set (events s)"
      unfolding settled_def by auto
    then show ?thesis unfolding ev using no by auto
  qed
  with no show "(\<forall>stock\<in>set stocks. Task stock n Resolve \<in> set xs) \<and>
     (\<forall>stock a'. Task stock n a' \<notin> set ys)"
    by blast
qed

theorem batches_not_pipelined_witness:
  "reachable (answering (baseline @ [breakout 5000000])) [''AAPL''] two_batches \<and>
   events two_batches =
     (Print_header # batch_events 50 @ [Print_separator 51]) @
     Task ''AAPL'' (Suc 50) Call_history #
     (map (Task ''AAPL'' 51) passing_actions @ [Task ''AAPL'' 51 Resolve]) \<and>
   (50::nat) \<le> 50 \<and>
   Task ''AAPL'' 50 Resolve \<in> set (Print_header # batch_events 50 @ [Print_separator 51]) \<and>
   Task ''AAPL'' 50 (Print_row hot_row)
     \<notin> set (map (Task ''AAPL'' 51) passing_actions @ [Task ''AAPL'' 51 Resolve])"
proof -
  let ?xs = "Print_header # batch_events 50 @ [Print_separator 51]"
  let ?ys = "map (Task ''AAPL'' 51) passing_actions @ [Task ''AAPL'' 51 Resolve]"
  have ev: "events two_batches = ?xs @ Task ''AAPL'' (Suc 50) Call_history # ?ys"
    by (simp add: two_batches_def batch_events_def)
  have le: "(50::nat) \<le> 50" by simp
  note t = batches_not_pipelined [of "answering (baseline @ [breakout 5000000])" "[''AAPL'']"
      two_batches ?xs "''AAPL''" 50 Call_history ?ys, THEN mp, OF conjI, OF two_batches_reachable conjI,
      OF ev le]
  from t have a: "Task ''AAPL'' 50 Resolve \<in> set ?xs" by simp
  from t have b: "Task ''AAPL'' 50 (Print_row hot_row) \<notin> set ?ys" by blast
  show ?thesis by (intro conjI two_batches_reachable ev le a b)
qed

section \<open>A fault that leaves the task\<close>

lemma step_doomed:
  assumes "step (answering zero_high) [''AAPL''] s s'" and "doomed s"
  shows "doomed s'"
  using assms
proof (cases rule: step.cases)
  case (spawn i)
  with assms(2) show ?thesis by (auto simp: doomed_def)
next
  case (start i k stock j)
  from assms(2) start(2) have inv: "\<forall>n m. Print_summary n m \<notin> set (events s)" "i = 50"
    "set (tasks s) \<subseteq> {(''AAPL'', 50, Created), (''AAPL'', 50, Fetching),
                           (''AAPL'', 50, Finished (Some OverflowError))}"
    by (auto simp: doomed_def)
  from start(3,4) have "(stock, j, Created) \<in> set (tasks s)" by (metis nth_mem)
  with inv(3) have sj: "stock = ''AAPL''" "j = 50" by auto
  have "set ((tasks s)[k := (stock, j, Fetching)]) \<subseteq> insert (stock, j, Fetching) (set (tasks s))"
    by (rule set_update_subset_insert)
  with inv(3) sj have "set (tasks s') \<subseteq> {(''AAPL'', 50, Created), (''AAPL'', 50, Fetching),
                           (''AAPL'', 50, Finished (Some OverflowError))}"
    unfolding start(1) by auto
  moreover have "tasks s' \<noteq> []" unfolding start(1) using start(3) by auto
  ultimately show ?thesis
    unfolding doomed_def using inv(1,2) start(1,2) by auto
next
  case (resume i k stock j r w' acts)
  from assms(2) resume(2) have inv: "\<forall>n m. Print_summary n m \<notin> set (events s)" "i = 50"
    "set (tasks s) \<subseteq> {(''AAPL'', 50, Created), (''AAPL'', 50, Fetching),
                           (''AAPL'', 50, Finished (Some OverflowError))}"
    by (auto simp: doomed_def)
  from resume(3,4) have "(stock, j, Fetching) \<in> set (tasks s)" by (metis nth_mem)
  with inv(3) have sj: "stock = ''AAPL''" "j = 50" by auto
  with resume(5) have r: "r = Some OverflowError" by (simp add: zero_high_get_stock_data)
  have "set ((tasks s)[k := (stock, j, Finished r)]) \<subseteq> insert (stock, j, Finished r) (set (tasks s))"
    by (rule set_update_subset_insert)
  with inv(3) sj r have "set (tasks s') \<subseteq> {(''AAPL'', 50, Created), (''AAPL'', 50, Fetching),
                           (''AAPL'', 50, Finished (Some OverflowError))}"
    unfolding resume(1) by auto
  moreover have "tasks s' \<noteq> []" unfolding resume(1) using resume(3) by auto
  ultimately show ?thesis
    unfolding doomed_def using inv(1,2) resume(1,2) by auto
next
  case (gathered i)
  from assms(2) gathered(2) have "tasks s \<noteq> []"
    "set (tasks s) \<subseteq> {(''AAPL'', 50, Created), (''AAPL'', 50, Fetching),
                           (''AAPL'', 50, Finished (Some OverflowError))}"
    by (auto simp: doomed_def)
  then obtain t where t: "t \<in> set (tasks s)"
    and "t \<in> {(''AAPL'', 50, Created), (''AAPL'', 50, Fetching),
                (''AAPL'', 50, Finished (Some OverflowError))}"
    by (cases "tasks s") auto
  then have "snd (snd t) \<noteq> Finished None" by auto
  with gathered(3) t show ?thesis by blast
next
  case (failed i stock j ex)
  with assms(2) show ?thesis by (auto simp: doomed_def)
next
  case summary
  with assms(2) show ?thesis by (auto simp: doomed_def)
qed

lemma reachable_doomed: "reachable (answering zero_high) [''AAPL''] s \<Longrightarrow> doomed s"
proof (induction rule: reachable.induct)
  case start_of_run
  show ?case by (simp add: doomed_def initial_def)
next
  case (after_step s s')
  then show ?case by (blast intro: step_doomed)
qed

lemma doomed_no_summary: "doomed s \<Longrightarrow> pc s \<noteq> Returned \<and> (\<forall>n m. Print_summary n m \<notin> set (events s))"
  by (auto simp: doomed_def)

text \<open>
  Claim C1 says that no fault of a symbol's evaluation leaves its task and that the run
  always ends by printing the summary. On a frame whose row 48 has a high of 0 and whose
  row 49 is a green day, the gap is plus infinity and \<^verbatim>\<open>round\<close> of it raises OverflowError,
  which the handlers of \<^verbatim>\<open>get_stock_data\<close> (KeyError, IndexError) do not catch: the
  exception leaves the task, \<^verbatim>\<open>gather\<close> raises it into \<^verbatim>\<open>main\<close>, the run stops there, and no
  run on that frame ever prints the summary.
\<close>

theorem fault_escapes_the_run:
  "get_stock_data (answering zero_high) (watch initial) ''AAPL'' 50
     = (Some OverflowError, watch initial, []) \<and>
   reachable (answering zero_high) [''AAPL''] aborted \<and>
   pc aborted = Raised OverflowError \<and>
   (\<forall>s'. \<not> step (answering zero_high) [''AAPL''] aborted s') \<and>
   (\<forall>n m. Print_summary n m \<notin> set (events aborted)) \<and>
   (\<forall>s. reachable (answering zero_high) [''AAPL''] s \<longrightarrow>
        pc s \<noteq> Returned \<and> (\<forall>n m. Print_summary n m \<notin> set (events s)))"
  using zero_high_get_stock_data [of "watch initial"] aborted_reachable aborted_final
    doomed_no_summary [OF reachable_doomed]
  by (simp add: aborted_def)

theorem fault_escapes_the_run_witness:
  "reachable (answering zero_high) [''AAPL''] aborted \<and> pc aborted \<noteq> Returned \<and>
   Print_summary 0 0 \<notin> set (events aborted)"
proof -
  note t = fault_escapes_the_run [THEN conjunct2, THEN conjunct2, THEN conjunct2, THEN conjunct2,
      THEN conjunct2, THEN spec, of aborted, THEN mp, OF aborted_reachable]
  from t show ?thesis using aborted_reachable by blast
qed

section \<open>The price sentinel and the momentum flag\<close>














lemma closest_number_double_exact:
  assumes "round_double (close - high) = Fin (close - high)"
    and "round_double (close - low) = Fin (close - low)"
  shows "closest_number_double close high low stock = closest_number close high low stock"
  by (simp add: closest_number_double_def closest_number_def assms)




end
